theory Spec2Isabelle
  imports Complex_Main
begin

section \<open>JavaScript strings\<close>

text \<open>
  A string is a list of code units. The model covers the code units below 256 (ASCII and the
  Latin-1 supplement), which is what \<^typ>\<open>char\<close> holds; numbers are real numbers, so the
  rounding of a double is not part of the model.
\<close>

definition isUpperCase :: "char \<Rightarrow> bool" where
  "isUpperCase c =
     (let n = (of_char c :: nat)
      in (65 \<le> n \<and> n \<le> 90) \<or> (192 \<le> n \<and> n \<le> 222 \<and> n \<noteq> 215))"

text \<open>\<^verbatim>\<open>String.prototype.toLowerCase\<close>, one code unit at a time.\<close>

definition toLowerCase_unit :: "char \<Rightarrow> char" where
  "toLowerCase_unit c = (if isUpperCase c then char_of ((of_char c :: nat) + 32) else c)"

definition toLowerCase :: "string \<Rightarrow> string" where
  "toLowerCase s = map toLowerCase_unit s"

text \<open>The regular expression class \<^verbatim>\<open>\w\<close>: \<^verbatim>\<open>[A-Za-z0-9_]\<close>.\<close>

definition isWordChar :: "char \<Rightarrow> bool" where
  "isWordChar c =
     (let n = (of_char c :: nat)
      in (48 \<le> n \<and> n \<le> 57) \<or> (65 \<le> n \<and> n \<le> 90) \<or> n = 95 \<or> (97 \<le> n \<and> n \<le> 122))"

text \<open>
  The class \<^verbatim>\<open>\s\<close>, which is also what \<^verbatim>\<open>trim\<close> strips: tab, line feed, vertical tab,
  form feed, carriage return, space and the no-break space.
\<close>

definition isWhiteSpace :: "char \<Rightarrow> bool" where
  "isWhiteSpace c =
     (let n = (of_char c :: nat) in (9 \<le> n \<and> n \<le> 13) \<or> n = 32 \<or> n = 160)"

text \<open>\<^verbatim>\<open>s.replace(/[^\w\s]/g, '')\<close>\<close>

definition removePunctuation :: "string \<Rightarrow> string" where
  "removePunctuation s = filter (\<lambda>c. isWordChar c \<or> isWhiteSpace c) s"

definition trim :: "string \<Rightarrow> string" where
  "trim s = rev (dropWhile isWhiteSpace (rev (dropWhile isWhiteSpace s)))"

text \<open>\<^verbatim>\<open>s.startsWith(t)\<close> and \<^verbatim>\<open>s.includes(t)\<close>\<close>

fun startsWith :: "string \<Rightarrow> string \<Rightarrow> bool" where
  "startsWith s [] = True"
| "startsWith [] (d # t) = False"
| "startsWith (c # s) (d # t) = (c = d \<and> startsWith s t)"

fun string_includes :: "string \<Rightarrow> string \<Rightarrow> bool" where
  "string_includes [] t = (t = [])"
| "string_includes (c # s) t = (startsWith (c # s) t \<or> string_includes s t)"

text \<open>\<^verbatim>\<open>parts.join(sep)\<close>\<close>

fun join :: "string \<Rightarrow> string list \<Rightarrow> string" where
  "join sep [] = []"
| "join sep [x] = x"
| "join sep (x # y # ys) = x @ sep @ join sep (y # ys)"

text \<open>\<^verbatim>\<open>xs.slice(0, end)\<close> for an integer end: a negative end counts from the back.\<close>

definition slice0 :: "'a list \<Rightarrow> int \<Rightarrow> 'a list" where
  "slice0 xs stop =
     (let len = int (length xs);
          final = (if stop < 0 then max (len + stop) 0 else min stop len)
      in take (nat final) xs)"


section \<open>JavaScript Map and Set\<close>

text \<open>
  Both iterate in insertion order. A Map is the list of its entries: \<open>set\<close> on a key that is
  present replaces the value where it stands, on a new key it appends. A Set is the list of
  its elements.
\<close>

definition Map_get :: "('k \<times> 'v) list \<Rightarrow> 'k \<Rightarrow> 'v option" where
  "Map_get m k = map_of m k"

definition Map_has :: "('k \<times> 'v) list \<Rightarrow> 'k \<Rightarrow> bool" where
  "Map_has m k = (map_of m k \<noteq> None)"

primrec Map_set :: "('k \<times> 'v) list \<Rightarrow> 'k \<Rightarrow> 'v \<Rightarrow> ('k \<times> 'v) list" where
  "Map_set [] k v = [(k, v)]"
| "Map_set (p # ps) k v = (if fst p = k then (k, v) # ps else p # Map_set ps k v)"

definition Map_delete :: "('k \<times> 'v) list \<Rightarrow> 'k \<Rightarrow> ('k \<times> 'v) list" where
  "Map_delete m k = filter (\<lambda>p. fst p \<noteq> k) m"

definition Set_has :: "'a list \<Rightarrow> 'a \<Rightarrow> bool" where
  "Set_has xs x = (x \<in> set xs)"

definition Set_add :: "'a list \<Rightarrow> 'a \<Rightarrow> 'a list" where
  "Set_add xs x = (if x \<in> set xs then xs else xs @ [x])"

definition Set_delete :: "'a list \<Rightarrow> 'a \<Rightarrow> 'a list" where
  "Set_delete xs x = filter (\<lambda>y. y \<noteq> x) xs"

text \<open>\<^verbatim>\<open>new Set(iterable)\<close>\<close>

definition Set_new :: "'a list \<Rightarrow> 'a list" where
  "Set_new xs = fold (\<lambda>x acc. Set_add acc x) xs []"


section \<open>SubjectIndex\<close>

record SubjectIndexEntry =
  idHash :: string
  name :: string
  keywords' :: "string list"
  normalizedKeywords :: "string list"
  metadata :: "(string \<times> string) list option"

record SubjectMatch =
  match_idHash :: string
  match_name :: string
  match_keywords :: "string list"
  matchingKeywords :: "string list"
  relevanceScore :: real

record SubjectIndex =
  keywordToSubjects :: "(string \<times> string list) list"
  subjects :: "(string \<times> SubjectIndexEntry) list"

text \<open>The state of \<^verbatim>\<open>new SubjectIndex()\<close>.\<close>

definition emptyIndex :: SubjectIndex where
  "emptyIndex = \<lparr>keywordToSubjects = [], subjects = []\<rparr>"

subsection \<open>normalizeKeyword\<close>

definition normalizeKeyword :: "string \<Rightarrow> string" where
  "normalizeKeyword keyword = trim (removePunctuation (toLowerCase keyword))"

definition normalizeKeywords :: "string list \<Rightarrow> string list" where
  "normalizeKeywords kws = map normalizeKeyword kws"

text \<open>\<^verbatim>\<open>createIndexEntry\<close>; a subject without keywords has the empty list.\<close>

definition createIndexEntry ::
  "string \<Rightarrow> string \<Rightarrow> string list option \<Rightarrow> (string \<times> string) list option \<Rightarrow> SubjectIndexEntry"
where
  "createIndexEntry i n kws md =
     (let ks = (case kws of None \<Rightarrow> [] | Some l \<Rightarrow> l)
      in \<lparr>idHash = i, name = n, keywords' = ks,
          normalizedKeywords = Set_new (map normalizeKeyword ks), metadata = md\<rparr>)"

subsection \<open>addSubject, removeSubject, updateSubject\<close>

text \<open>
  One round of the loop that indexes a keyword: the posting list is created when the keyword
  has none, then the identifier is added to it.
\<close>

definition indexKeyword ::
  "string \<Rightarrow> string \<Rightarrow> (string \<times> string list) list \<Rightarrow> (string \<times> string list) list"
where
  "indexKeyword idHashStr keyword k2s =
     (let k2s' = (if \<not> Map_has k2s keyword then Map_set k2s keyword [] else k2s)
      in case Map_get k2s' keyword of
           None \<Rightarrow> k2s'
         | Some ids \<Rightarrow> Map_set k2s' keyword (Set_add ids idHashStr))"

text \<open>
  One round of the loop that removes an identifier from a keyword's posting list, and the
  list from the map when it is left empty.
\<close>

definition unindexKeyword ::
  "string \<Rightarrow> string \<Rightarrow> (string \<times> string list) list \<Rightarrow> (string \<times> string list) list"
where
  "unindexKeyword idHashStr keyword k2s =
     (case Map_get k2s keyword of
        None \<Rightarrow> k2s
      | Some ids \<Rightarrow>
          (let ids' = Set_delete ids idHashStr;
               k2s' = Map_set k2s keyword ids'
           in if length ids' = 0 then Map_delete k2s' keyword else k2s'))"

definition addSubject :: "SubjectIndex \<Rightarrow> SubjectIndexEntry \<Rightarrow> SubjectIndex" where
  "addSubject s entry =
     (let idHashStr = idHash entry
      in \<lparr>keywordToSubjects =
            fold (indexKeyword idHashStr) (normalizedKeywords entry) (keywordToSubjects s),
          subjects = Map_set (subjects s) idHashStr entry\<rparr>)"

definition removeSubject :: "SubjectIndex \<Rightarrow> string \<Rightarrow> bool \<times> SubjectIndex" where
  "removeSubject s idHashStr =
     (case Map_get (subjects s) idHashStr of
        None \<Rightarrow> (False, s)
      | Some entry \<Rightarrow>
          (True,
           \<lparr>keywordToSubjects =
              fold (unindexKeyword idHashStr) (normalizedKeywords entry) (keywordToSubjects s),
            subjects = Map_delete (subjects s) idHashStr\<rparr>))"

definition updateSubject :: "SubjectIndex \<Rightarrow> SubjectIndexEntry \<Rightarrow> SubjectIndex" where
  "updateSubject s entry =
     (let idHashStr = idHash entry
      in case Map_get (subjects s) idHashStr of
           None \<Rightarrow> addSubject s entry
         | Some oldEntry \<Rightarrow>
             (let removedKeywords =
                    fold (\<lambda>keyword acc. Set_delete acc keyword) (normalizedKeywords entry)
                      (Set_new (normalizedKeywords oldEntry));
                  addedKeywords =
                    fold (\<lambda>keyword acc. Set_delete acc keyword) (normalizedKeywords oldEntry)
                      (Set_new (normalizedKeywords entry));
                  k2s1 = fold (unindexKeyword idHashStr) removedKeywords (keywordToSubjects s);
                  k2s2 = fold (indexKeyword idHashStr) addedKeywords k2s1
              in \<lparr>keywordToSubjects = k2s2,
                  subjects = Map_set (subjects s) idHashStr entry\<rparr>))"

definition getSubject :: "SubjectIndex \<Rightarrow> string \<Rightarrow> SubjectIndexEntry option" where
  "getSubject s i = Map_get (subjects s) i"

definition clear :: "SubjectIndex \<Rightarrow> SubjectIndex" where
  "clear s = \<lparr>keywordToSubjects = [], subjects = []\<rparr>"

definition buildFromSubjects :: "SubjectIndex \<Rightarrow> SubjectIndexEntry list \<Rightarrow> SubjectIndex" where
  "buildFromSubjects s entries = fold (\<lambda>entry acc. addSubject acc entry) entries (clear s)"

subsection \<open>findByKeywords, findSimilar\<close>

definition findMatchingKeywords :: "string list \<Rightarrow> string list \<Rightarrow> string list" where
  "findMatchingKeywords searchKeywords subjectKeywords =
     filter (\<lambda>keyword.
        Set_has subjectKeywords keyword \<or>
        list_ex (\<lambda>subjectKw. string_includes subjectKw keyword \<or> string_includes keyword subjectKw)
          subjectKeywords)
      searchKeywords"

definition calculateJaccardSimilarity :: "string list \<Rightarrow> string list \<Rightarrow> real" where
  "calculateJaccardSimilarity setA setB =
     (let intersection =
            fold (\<lambda>item acc. if Set_has setB item then Set_add acc item else acc) setA [];
          union = Set_new (setA @ setB)
      in if length union = 0 then 0
         else real (length intersection) / real (length union))"

text \<open>The candidates: the posting lists of the query's keywords, united in query order.\<close>

definition collectCandidates :: "SubjectIndex \<Rightarrow> string list \<Rightarrow> string list" where
  "collectCandidates s normalizedKws =
     fold (\<lambda>keyword cands.
        case Map_get (keywordToSubjects s) keyword of
          None \<Rightarrow> cands
        | Some ids \<Rightarrow> fold (\<lambda>i acc. Set_add acc i) ids cands)
      normalizedKws []"

text \<open>What one candidate adds to \<^verbatim>\<open>matches\<close>: nothing, or its match.\<close>

definition scoreCandidate :: "SubjectIndex \<Rightarrow> string list \<Rightarrow> string \<Rightarrow> SubjectMatch list" where
  "scoreCandidate s searchKeywordSet idHashStr =
     (case Map_get (subjects s) idHashStr of
        None \<Rightarrow> []
      | Some entry \<Rightarrow>
          (let matching = findMatchingKeywords searchKeywordSet (normalizedKeywords entry)
           in if length matching > 0
              then [\<lparr>match_idHash = idHash entry, match_name = name entry,
                     match_keywords = keywords' entry, matchingKeywords = matching,
                     relevanceScore =
                       calculateJaccardSimilarity searchKeywordSet (normalizedKeywords entry)\<rparr>]
              else []))"

text \<open>
  \<^verbatim>\<open>matches.sort((a, b) => b.relevanceScore - a.relevanceScore)\<close>: the sort is stable and the
  scores are finite, so the result is the stable sort on the negated score.
\<close>

definition sortByRelevance :: "SubjectMatch list \<Rightarrow> SubjectMatch list" where
  "sortByRelevance matches = sort_key (\<lambda>m. - relevanceScore m) matches"

definition findByKeywords :: "SubjectIndex \<Rightarrow> string list \<Rightarrow> SubjectMatch list" where
  "findByKeywords s kws =
     (let normalizedKws = normalizeKeywords kws;
          candidateIdHashes = collectCandidates s normalizedKws;
          searchKeywordSet = Set_new normalizedKws;
          matches = concat (map (scoreCandidate s searchKeywordSet) candidateIdHashes)
      in sortByRelevance matches)"

text \<open>The limit is optional and defaults to 10.\<close>

definition findSimilar :: "SubjectIndex \<Rightarrow> string list \<Rightarrow> int option \<Rightarrow> SubjectMatch list" where
  "findSimilar s kws limit =
     slice0 (findByKeywords s kws) (case limit of None \<Rightarrow> 10 | Some n \<Rightarrow> n)"

subsection \<open>The states the public operations reach\<close>

inductive reachable :: "SubjectIndex \<Rightarrow> bool" where
  reach_new: "reachable emptyIndex"
| reach_add: "reachable s \<Longrightarrow> reachable (addSubject s entry)"
| reach_update: "reachable s \<Longrightarrow> reachable (updateSubject s entry)"
| reach_remove: "reachable s \<Longrightarrow> reachable (snd (removeSubject s i))"
| reach_build: "reachable s \<Longrightarrow> reachable (buildFromSubjects s entries)"
| reach_clear: "reachable s \<Longrightarrow> reachable (clear s)"


subsection \<open>Reading the state\<close>

text \<open>The posting list of a keyword as a set, and whether an identifier is in it.\<close>

definition postingsOf :: "(string \<times> string list) list \<Rightarrow> string \<Rightarrow> string set option" where
  "postingsOf k2s k = map_option set (Map_get k2s k)"

definition postingList :: "SubjectIndex \<Rightarrow> string \<Rightarrow> string set option" where
  "postingList s k = postingsOf (keywordToSubjects s) k"

definition posted :: "SubjectIndex \<Rightarrow> string \<Rightarrow> string \<Rightarrow> bool" where
  "posted s k i = (case Map_get (keywordToSubjects s) k of None \<Rightarrow> False | Some ids \<Rightarrow> Set_has ids i)"

text \<open>
  Two states with the same stored entries and the same posting lists, whatever the order in
  which the maps and sets iterate.
\<close>

definition sameContents :: "SubjectIndex \<Rightarrow> SubjectIndex \<Rightarrow> bool" where
  "sameContents s t =
     ((\<forall>i. getSubject s i = getSubject t i) \<and> (\<forall>k. postingList s k = postingList t k))"

text \<open>
  Every stored entry is stored under its own identifier, and is in the posting list of each of
  its normalized keywords.
\<close>

definition entriesPosted :: "SubjectIndex \<Rightarrow> bool" where
  "entriesPosted s =
     (\<forall>i e. getSubject s i = Some e \<longrightarrow>
        idHash e = i \<and> (\<forall>k \<in> set (normalizedKeywords e). posted s k i))"

text \<open>Whether a query returns the subject with the given identifier.\<close>

definition returnsSubject :: "SubjectIndex \<Rightarrow> string list \<Rightarrow> string \<Rightarrow> bool" where
  "returnsSubject s kws i = list_ex (\<lambda>m. match_idHash m = i) (findByKeywords s kws)"


subsection \<open>Example entries and states\<close>

definition rustSystems :: SubjectIndexEntry where
  "rustSystems = createIndexEntry ''s1'' ''systems programming'' (Some [''rust'', ''systems'']) None"

definition rustWeb :: SubjectIndexEntry where
  "rustWeb = createIndexEntry ''s2'' ''web services'' (Some [''rust'', ''web'']) None"

definition goCloud :: SubjectIndexEntry where
  "goCloud = createIndexEntry ''s3'' ''cloud'' (Some [''Rust'', ''web'', ''cli'', ''go'']) None"

definition entryProject :: SubjectIndexEntry where
  "entryProject = createIndexEntry ''s1'' ''the project'' (Some [''project'']) None"

definition entryProjects :: SubjectIndexEntry where
  "entryProjects = createIndexEntry ''s1'' ''the projects'' (Some [''projects'']) None"

definition entryNoKeywords :: SubjectIndexEntry where
  "entryNoKeywords = createIndexEntry ''s1'' ''untagged'' None None"

definition rustIndex :: SubjectIndex where
  "rustIndex = buildFromSubjects emptyIndex [rustSystems, rustWeb]"

definition projectIndex :: SubjectIndex where
  "projectIndex = addSubject emptyIndex entryProject"


section \<open>ChatMemoryService\<close>

datatype error =
    MemoriesNotEnabled string
  | TopicAnalyzerNotAvailable
  | MemoryPlanNotAvailable
  | ChannelManagerNotAvailable
  | CollaboratorError string

record ChatMemoryConfig =
  topicId :: string
  enabled :: bool
  autoExtract :: bool
  updateInterval :: "int option"
  minConfidence :: "real option"
  trackedKeywords :: "string list option"

text \<open>A message as \<^verbatim>\<open>getMessages\<close> hands it to the extraction loop, which reads its text.\<close>

record Message =
  msg_hash :: string
  content :: string
  text' :: string

record ExtractedSubject =
  subj_name :: string
  subj_keywords :: "string list"
  confidence :: real
  description :: "string option"
  messageExcerpt :: "string option"

record ExtractSubjectsRequest =
  req_topicId :: string
  messageIds :: "string list option"
  limit :: "int option"

record ExtractSubjectsResponse =
  resp_subjects :: "ExtractedSubject list"
  totalMessages :: nat
  processingTime :: int

text \<open>
  What a call of the keyword extractor \<^verbatim>\<open>topicAnalyzer.extractKeywords(text, max)\<close> does: it
  throws, or it returns a keyword array or nothing.
\<close>

datatype ExtractOutcome = Throws | Returns "string list option"

type_synonym extractor = "string \<Rightarrow> nat \<Rightarrow> ExtractOutcome"

text \<open>
  The collaborators. The channel manager stands for \<^verbatim>\<open>getMessages\<close>, the messages of a topic
  after its filtering, ordering and limiting, or the error it throws. The memory plan stands
  for \<^verbatim>\<open>storeSubjectAsMemory\<close>: the world \<open>'w\<close> (the subject store and the association
  cache) that storing one subject for a topic leaves, with the error when it throws.
\<close>

record 'w ChatMemoryServiceDependencies =
  channelManager :: "(string \<Rightarrow> string list option \<Rightarrow> int option \<Rightarrow> error + Message list) option"
  topicAnalyzer :: "extractor option"
  memoryPlan :: "(string \<Rightarrow> ExtractedSubject \<Rightarrow> 'w \<Rightarrow> error option \<times> 'w) option"

definition isEnabled :: "(string \<times> ChatMemoryConfig) list \<Rightarrow> string \<Rightarrow> bool" where
  "isEnabled configs t = (case Map_get configs t of None \<Rightarrow> False | Some c \<Rightarrow> enabled c)"

definition getConfig :: "(string \<times> ChatMemoryConfig) list \<Rightarrow> string \<Rightarrow> ChatMemoryConfig option" where
  "getConfig configs t = Map_get configs t"

text \<open>\<^verbatim>\<open>config?.minConfidence ?? 0.5\<close>\<close>

definition minimumConfidence :: "ChatMemoryConfig option \<Rightarrow> real" where
  "minimumConfidence config =
     (case config of
        None \<Rightarrow> 0.5
      | Some c \<Rightarrow> (case minConfidence c of None \<Rightarrow> 0.5 | Some x \<Rightarrow> x))"

text \<open>\<^verbatim>\<open>message.text || message.content\<close>: the empty string is falsy.\<close>

definition messageText :: "Message \<Rightarrow> string" where
  "messageText m = (if text' m \<noteq> [] then text' m else content m)"

definition getExcerpt :: "string \<Rightarrow> nat \<Rightarrow> string" where
  "getExcerpt c maxLength = (if length c \<le> maxLength then c else take maxLength c @ ''...'')"

text \<open>
  The state of the extraction loop: the frequency map, the subjects extracted so far, and a
  record of the texts the extractor was called on, in order.
\<close>

record ExtractionState =
  allKeywords :: "(string \<times> nat) list"
  extractedSubjects :: "ExtractedSubject list"
  extractorCalls :: "string list"

definition initialExtraction :: ExtractionState where
  "initialExtraction = \<lparr>allKeywords = [], extractedSubjects = [], extractorCalls = []\<rparr>"

text \<open>\<^verbatim>\<open>allKeywords.set(normalized, (allKeywords.get(normalized) || 0) + 1)\<close>\<close>

definition trackKeyword :: "string \<Rightarrow> (string \<times> nat) list \<Rightarrow> (string \<times> nat) list" where
  "trackKeyword keyword freq =
     (let normalized = toLowerCase keyword
      in Map_set freq normalized ((case Map_get freq normalized of None \<Rightarrow> 0 | Some n \<Rightarrow> n) + 1))"

text \<open>\<^verbatim>\<open>allKeywords.get(String(kw).toLowerCase()) || 1\<close>\<close>

definition frequencyOr1 :: "(string \<times> nat) list \<Rightarrow> string \<Rightarrow> nat" where
  "frequencyOr1 freq kw =
     (case Map_get freq (toLowerCase kw) of None \<Rightarrow> 1 | Some n \<Rightarrow> if n = 0 then 1 else n)"

definition calculateConfidence :: "(string \<times> nat) list \<Rightarrow> string list \<Rightarrow> nat \<Rightarrow> real" where
  "calculateConfidence freq topKeywords batchSize =
     (let avgFreq = foldl (\<lambda>sum kw. sum + real (frequencyOr1 freq kw)) 0 topKeywords
                    / real (length topKeywords)
      in min (avgFreq / real batchSize) 1)"

text \<open>
  One round of the loop over the messages. An extractor that throws is caught: the round
  changes nothing but the record of calls.
\<close>

definition processMessage ::
  "extractor \<Rightarrow> real \<Rightarrow> nat \<Rightarrow> Message \<Rightarrow> ExtractionState \<Rightarrow> ExtractionState"
where
  "processMessage extractKeywords minConf batchSize message st =
     (let txt = messageText message;
          st1 = st\<lparr>extractorCalls := extractorCalls st @ [txt]\<rparr>
      in case extractKeywords txt 10 of
           Throws \<Rightarrow> st1
         | Returns None \<Rightarrow> st1
         | Returns (Some kws) \<Rightarrow>
             if length kws > 0 then
               (let freq = fold trackKeyword kws (allKeywords st1);
                    topKeywords = take 3 kws;
                    subjectName = join '' '' topKeywords;
                    c = calculateConfidence freq topKeywords batchSize;
                    st2 = st1\<lparr>allKeywords := freq\<rparr>
                in if c \<ge> minConf
                   then st2\<lparr>extractedSubjects := extractedSubjects st2 @
                          [\<lparr>subj_name = subjectName, subj_keywords = topKeywords, confidence = c,
                            description = Some (getExcerpt txt 150),
                            messageExcerpt = Some (getExcerpt txt 200)\<rparr>]\<rparr>
                   else st2)
             else st1)"

definition extractionLoop ::
  "extractor \<Rightarrow> real \<Rightarrow> Message list \<Rightarrow> ExtractionState"
where
  "extractionLoop extractKeywords minConf messages =
     fold (processMessage extractKeywords minConf (length messages)) messages initialExtraction"

definition deduplicateSubjects :: "ExtractedSubject list \<Rightarrow> ExtractedSubject list" where
  "deduplicateSubjects subjs =
     map snd
       (fold (\<lambda>subject seen.
            let key = toLowerCase (subj_name subject)
            in case Map_get seen key of
                 None \<Rightarrow> Map_set seen key subject
               | Some existing \<Rightarrow>
                   if confidence subject > confidence existing then Map_set seen key subject
                   else seen)
          subjs [])"

text \<open>
  The loop that stores the unique subjects; the first error ends the call, and what was
  stored before it stays stored.
\<close>

fun storeSubjects ::
  "(ExtractedSubject \<Rightarrow> 'w \<Rightarrow> error option \<times> 'w) \<Rightarrow> ExtractedSubject list \<Rightarrow> 'w
   \<Rightarrow> error option \<times> 'w"
where
  "storeSubjects store [] w = (None, w)"
| "storeSubjects store (subject # rest) w =
     (case store subject w of
        (Some e, w') \<Rightarrow> (Some e, w')
      | (None, w') \<Rightarrow> storeSubjects store rest w')"

text \<open>
  \<^verbatim>\<open>extractAndStoreSubjects\<close>. The clock is read first and last: \<open>startTime\<close> and
  \<open>endTime\<close>. The result is the response or the error thrown, with the texts the extractor
  was called on and the world the call leaves.
\<close>

definition extractAndStoreSubjects ::
  "(string \<times> ChatMemoryConfig) list \<Rightarrow> 'w ChatMemoryServiceDependencies \<Rightarrow> int \<Rightarrow> int \<Rightarrow>
   ExtractSubjectsRequest \<Rightarrow> 'w \<Rightarrow> (error + ExtractSubjectsResponse) \<times> string list \<times> 'w"
where
  "extractAndStoreSubjects configs deps startTime endTime request w =
     (if \<not> isEnabled configs (req_topicId request)
      then (Inl (MemoriesNotEnabled (req_topicId request)), [], w)
      else case topicAnalyzer deps of
        None \<Rightarrow> (Inl TopicAnalyzerNotAvailable, [], w)
      | Some extractKeywords \<Rightarrow>
      (case memoryPlan deps of
        None \<Rightarrow> (Inl MemoryPlanNotAvailable, [], w)
      | Some storeSubjectAsMemory \<Rightarrow>
      (case channelManager deps of
        None \<Rightarrow> (Inl ChannelManagerNotAvailable, [], w)
      | Some getMessages \<Rightarrow>
      (case getMessages (req_topicId request) (messageIds request) (limit request) of
        Inl e \<Rightarrow> (Inl e, [], w)
      | Inr messages \<Rightarrow>
          (let config = getConfig configs (req_topicId request);
               st = extractionLoop extractKeywords (minimumConfidence config) messages;
               uniqueSubjects = deduplicateSubjects (extractedSubjects st)
           in case storeSubjects (storeSubjectAsMemory (req_topicId request)) uniqueSubjects w of
                (Some e, w') \<Rightarrow> (Inl e, extractorCalls st, w')
              | (None, w') \<Rightarrow>
                  (Inr \<lparr>resp_subjects = extractedSubjects st,
                        totalMessages = length messages,
                        processingTime = endTime - startTime\<rparr>,
                   extractorCalls st, w'))))))"

subsection \<open>The candidates, record by record\<close>

text \<open>The keywords a record contributes: none when the extractor throws or returns nothing.\<close>

definition keywordsOf :: "extractor \<Rightarrow> Message \<Rightarrow> string list" where
  "keywordsOf extractKeywords m =
     (case extractKeywords (messageText m) 10 of
        Throws \<Rightarrow> []
      | Returns None \<Rightarrow> []
      | Returns (Some kws) \<Rightarrow> kws)"

text \<open>How often a lowercased keyword was extracted in the given records.\<close>

definition frequencyIn :: "extractor \<Rightarrow> Message list \<Rightarrow> string \<Rightarrow> nat" where
  "frequencyIn extractKeywords ms k =
     count_list (concat (map (\<lambda>m. map toLowerCase (keywordsOf extractKeywords m)) ms)) k"

text \<open>
  The candidate of a record with keywords, after the records \<open>earlier\<close>, in a batch of
  \<open>batchSize\<close> records: its first three keywords, and the average of their frequencies through
  this record over the size of the batch, at most 1.
\<close>

definition candidateFor :: "extractor \<Rightarrow> nat \<Rightarrow> Message list \<Rightarrow> Message \<Rightarrow> ExtractedSubject" where
  "candidateFor extractKeywords batchSize earlier m =
     (let top = take 3 (keywordsOf extractKeywords m);
          avg = sum_list (map (\<lambda>kw. real (frequencyIn extractKeywords (earlier @ [m]) (toLowerCase kw))) top)
                / real (length top)
      in \<lparr>subj_name = join '' '' top, subj_keywords = top,
          confidence = min (avg / real batchSize) 1,
          description = Some (getExcerpt (messageText m) 150),
          messageExcerpt = Some (getExcerpt (messageText m) 200)\<rparr>)"

text \<open>A record's candidate is kept when the record has keywords and the confidence suffices.\<close>

definition candidateIfConfident ::
  "extractor \<Rightarrow> real \<Rightarrow> nat \<Rightarrow> Message list \<Rightarrow> Message \<Rightarrow> ExtractedSubject list"
where
  "candidateIfConfident extractKeywords minConf batchSize earlier m =
     (if keywordsOf extractKeywords m \<noteq> [] \<and>
         confidence (candidateFor extractKeywords batchSize earlier m) \<ge> minConf
      then [candidateFor extractKeywords batchSize earlier m] else [])"

definition candidatesOf :: "extractor \<Rightarrow> real \<Rightarrow> nat \<Rightarrow> Message list \<Rightarrow> ExtractedSubject list" where
  "candidatesOf extractKeywords minConf batchSize ms =
     concat (map (\<lambda>i. candidateIfConfident extractKeywords minConf batchSize (take i ms) (ms ! i))
       [0..<length ms])"


definition threeIndex :: SubjectIndex where
  "threeIndex = buildFromSubjects emptyIndex [rustSystems, rustWeb, goCloud]"


definition rustUpdated :: SubjectIndexEntry where
  "rustUpdated = createIndexEntry ''s1'' ''systems on the web'' (Some [''Web'', ''rust'']) None"

definition entryAlpha :: SubjectIndexEntry where
  "entryAlpha = createIndexEntry ''s1'' ''first'' (Some [''alpha'']) None"

definition entryBeta :: SubjectIndexEntry where
  "entryBeta = createIndexEntry ''s1'' ''second'' (Some [''beta'']) None"

text \<open>An identifier added twice, with different keywords.\<close>

definition readdedIndex :: SubjectIndex where
  "readdedIndex = addSubject (addSubject emptyIndex entryProject) entryProjects"

definition alphaBetaIndex :: SubjectIndex where
  "alphaBetaIndex = addSubject (addSubject emptyIndex entryAlpha) entryBeta"


text \<open>
  Every identifier in a posting list belongs to a stored entry that has the keyword: no
  posting is left over from an entry that was replaced.
\<close>

definition postingsBacked :: "SubjectIndex \<Rightarrow> bool" where
  "postingsBacked s =
     (\<forall>k i. posted s k i \<longrightarrow>
        (\<exists>e. getSubject s i = Some e \<and> k \<in> set (normalizedKeywords e)))"


subsection \<open>An example batch\<close>

definition exampleExtractor :: extractor where
  "exampleExtractor t n =
     (if t = ''first'' then Returns (Some [''a''])
      else if t = ''second'' then Returns (Some [''b'', ''c'', ''d'', ''a''])
      else if t = ''broken'' then Throws
      else Returns None)"

definition firstMessage :: Message where
  "firstMessage = \<lparr>msg_hash = ''h1'', content = ''first'', text' = ''first''\<rparr>"

definition secondMessage :: Message where
  "secondMessage = \<lparr>msg_hash = ''h2'', content = ''second'', text' = []\<rparr>"

definition brokenMessage :: Message where
  "brokenMessage = \<lparr>msg_hash = ''h0'', content = ''broken'', text' = ''broken''\<rparr>"

definition exampleMessages :: "Message list" where
  "exampleMessages = [firstMessage, secondMessage]"

definition brokenMessages :: "Message list" where
  "brokenMessages = [brokenMessage, firstMessage]"

definition exampleConfigs :: "(string \<times> ChatMemoryConfig) list" where
  "exampleConfigs =
     [(''topic'', \<lparr>topicId = ''topic'', enabled = True, autoExtract = True,
                   updateInterval = Some 60000, minConfidence = Some 0.5,
                   trackedKeywords = Some []\<rparr>)]"

text \<open>Collaborators whose store is the list of the names stored so far.\<close>

definition exampleChannel :: "string \<Rightarrow> string list option \<Rightarrow> int option \<Rightarrow> error + Message list" where
  "exampleChannel t ids n = Inr brokenMessages"

definition exampleStore :: "string \<Rightarrow> ExtractedSubject \<Rightarrow> string list \<Rightarrow> error option \<times> string list" where
  "exampleStore t subject w = (None, w @ [subj_name subject])"

definition exampleDeps :: "string list ChatMemoryServiceDependencies" where
  "exampleDeps =
     \<lparr>channelManager = Some exampleChannel,
      topicAnalyzer = Some exampleExtractor,
      memoryPlan = Some exampleStore\<rparr>"

definition exampleRequest :: ExtractSubjectsRequest where
  "exampleRequest = \<lparr>req_topicId = ''topic'', messageIds = None, limit = None\<rparr>"

definition otherRequest :: ExtractSubjectsRequest where
  "otherRequest = \<lparr>req_topicId = ''other'', messageIds = None, limit = None\<rparr>"


text \<open>The count the frequency map holds for a lowercased keyword, 0 when it has none.\<close>

definition freqOf :: "(string \<times> nat) list \<Rightarrow> string \<Rightarrow> nat" where
  "freqOf freq k = (case Map_get freq k of None \<Rightarrow> 0 | Some n \<Rightarrow> n)"


section \<open>The Map, the Set and the index operations\<close>

lemma map_of_Map_set: "map_of (Map_set m k v) = (map_of m)(k \<mapsto> v)"
  by (induction m) (auto simp: fun_eq_iff)

lemma map_of_Map_delete: "map_of (Map_delete m k) = (map_of m)(k := None)"
  by (induction m) (auto simp: Map_delete_def fun_eq_iff)

lemma Map_set_same: "map_of m k = Some v \<Longrightarrow> Map_set m k v = m"
  by (induction m) (auto split: if_splits)

lemma set_Set_add: "set (Set_add xs x) = insert x (set xs)"
  by (auto simp: Set_add_def)

lemma set_Set_delete: "set (Set_delete xs x) = set xs - {x}"
  by (auto simp: Set_delete_def)

lemma set_fold_Set_add: "set (fold (\<lambda>x acc. Set_add acc x) xs acc) = set acc \<union> set xs"
  by (induction xs arbitrary: acc) (auto simp: set_Set_add)

lemma set_Set_new: "set (Set_new xs) = set xs"
  by (simp add: Set_new_def set_fold_Set_add)

lemma distinct_fold_Set_add: "distinct acc \<Longrightarrow> distinct (fold (\<lambda>x acc. Set_add acc x) xs acc)"
  by (induction xs arbitrary: acc) (auto simp: Set_add_def)

lemma distinct_Set_new: "distinct (Set_new xs)"
  by (simp add: Set_new_def distinct_fold_Set_add)

lemma set_fold_Set_delete: "set (fold (\<lambda>k acc. Set_delete acc k) ks xs) = set xs - set ks"
  by (induction ks arbitrary: xs) (auto simp: set_Set_delete)


lemma postingsOf_indexKeyword:
  "postingsOf (indexKeyword i k m) k' =
     (if k' = k then Some (insert i (case postingsOf m k of None \<Rightarrow> {} | Some S \<Rightarrow> S))
      else postingsOf m k')"
  by (auto simp: postingsOf_def indexKeyword_def Map_has_def Map_get_def map_of_Map_set set_Set_add
      Let_def split: option.splits)

lemma Set_delete_eq_Nil: "(Set_delete xs i = []) = (set xs - {i} = {})"
  by (auto simp: Set_delete_def filter_empty_conv)

lemma postingsOf_unindexKeyword:
  "postingsOf (unindexKeyword i k m) k' =
     (if k' = k then
        (case postingsOf m k of None \<Rightarrow> None
         | Some S \<Rightarrow> if S - {i} = {} then None else Some (S - {i}))
      else postingsOf m k')"
  by (auto simp: postingsOf_def unindexKeyword_def Map_get_def map_of_Map_set map_of_Map_delete
      set_Set_delete Let_def Set_delete_eq_Nil split: option.splits)

lemma postingsOf_fold_indexKeyword:
  "postingsOf (fold (indexKeyword i) ks m) k =
     (if k \<in> set ks then Some (insert i (case postingsOf m k of None \<Rightarrow> {} | Some S \<Rightarrow> S))
      else postingsOf m k)"
proof (induction ks arbitrary: m)
  case Nil
  show ?case by simp
next
  case (Cons a ks)
  show ?case
    using Cons.IH [of "indexKeyword i a m"]
    by (simp add: postingsOf_indexKeyword split: option.splits)
qed

lemma postingsOf_fold_unindexKeyword:
  "postingsOf (fold (unindexKeyword i) ks m) k =
     (if k \<in> set ks then
        (case postingsOf m k of None \<Rightarrow> None
         | Some S \<Rightarrow> if S - {i} = {} then None else Some (S - {i}))
      else postingsOf m k)"
proof (induction ks arbitrary: m)
  case Nil
  show ?case by simp
next
  case (Cons a ks)
  show ?case
    using Cons.IH [of "unindexKeyword i a m"]
    by (auto simp: postingsOf_unindexKeyword split: option.splits)
qed

lemma postingList_addSubject:
  "postingList (addSubject s e) k =
     (if k \<in> set (normalizedKeywords e)
      then Some (insert (idHash e) (case postingList s k of None \<Rightarrow> {} | Some S \<Rightarrow> S))
      else postingList s k)"
  by (simp add: postingList_def addSubject_def Let_def postingsOf_fold_indexKeyword)

lemma getSubject_addSubject:
  "getSubject (addSubject s e) i = (if i = idHash e then Some e else getSubject s i)"
  by (simp add: getSubject_def addSubject_def Map_get_def map_of_Map_set Let_def)

lemma postingList_removeSubject:
  "postingList (snd (removeSubject s i)) k =
     (case getSubject s i of
        None \<Rightarrow> postingList s k
      | Some old \<Rightarrow>
          if k \<in> set (normalizedKeywords old)
          then (case postingList s k of None \<Rightarrow> None
                | Some S \<Rightarrow> if S - {i} = {} then None else Some (S - {i}))
          else postingList s k)"
  by (simp add: postingList_def removeSubject_def getSubject_def postingsOf_fold_unindexKeyword
      split: option.splits)

lemma getSubject_removeSubject:
  "getSubject (snd (removeSubject s i)) j = (if j = i then None else getSubject s j)"
  by (auto simp: getSubject_def removeSubject_def Map_get_def map_of_Map_delete split: option.splits)

lemma postingList_updateSubject:
  "postingList (updateSubject s e) k =
     (case getSubject s (idHash e) of
        None \<Rightarrow> postingList (addSubject s e) k
      | Some old \<Rightarrow>
          if k \<in> set (normalizedKeywords e) - set (normalizedKeywords old)
          then Some (insert (idHash e) (case postingList s k of None \<Rightarrow> {} | Some S \<Rightarrow> S))
          else if k \<in> set (normalizedKeywords old) - set (normalizedKeywords e)
          then (case postingList s k of None \<Rightarrow> None
                | Some S \<Rightarrow> if S - {idHash e} = {} then None else Some (S - {idHash e}))
          else postingList s k)"
proof (cases "getSubject s (idHash e)")
  case None
  then show ?thesis by (simp add: updateSubject_def getSubject_def)
next
  case (Some old)
  then show ?thesis
    by (simp add: postingList_def updateSubject_def getSubject_def Let_def
        postingsOf_fold_indexKeyword postingsOf_fold_unindexKeyword set_fold_Set_delete set_Set_new)
qed

lemma getSubject_updateSubject:
  "getSubject (updateSubject s e) i = (if i = idHash e then Some e else getSubject s i)"
  by (auto simp: getSubject_def updateSubject_def addSubject_def Map_get_def map_of_Map_set Let_def
      split: option.splits)


lemma posted_iff: "posted s k i = (\<exists>S. postingList s k = Some S \<and> i \<in> S)"
  by (auto simp: posted_def postingList_def postingsOf_def Set_has_def split: option.splits)

lemma posted_addSubject:
  "posted (addSubject s e) k i =
     (posted s k i \<or> (i = idHash e \<and> k \<in> set (normalizedKeywords e)))"
  by (auto simp: posted_iff postingList_addSubject split: option.splits)

lemma posted_removeSubject:
  "posted (snd (removeSubject s i)) k j =
     (case getSubject s i of
        None \<Rightarrow> posted s k j
      | Some old \<Rightarrow> posted s k j \<and> \<not> (j = i \<and> k \<in> set (normalizedKeywords old)))"
  by (auto simp: posted_iff postingList_removeSubject split: option.splits)

lemma posted_updateSubject:
  "posted (updateSubject s e) k j =
     (case getSubject s (idHash e) of
        None \<Rightarrow> posted s k j \<or> (j = idHash e \<and> k \<in> set (normalizedKeywords e))
      | Some old \<Rightarrow>
          (posted s k j \<and>
             \<not> (j = idHash e \<and> k \<in> set (normalizedKeywords old) - set (normalizedKeywords e)))
          \<or> (j = idHash e \<and> k \<in> set (normalizedKeywords e) - set (normalizedKeywords old)))"
  by (auto simp: posted_iff postingList_updateSubject postingList_addSubject split: option.splits)

lemma entriesPosted_emptyIndex: "entriesPosted emptyIndex"
  by (simp add: entriesPosted_def emptyIndex_def getSubject_def Map_get_def)

lemma entriesPosted_clear: "entriesPosted (clear s)"
  by (simp add: entriesPosted_def clear_def getSubject_def Map_get_def)

lemma entriesPosted_addSubject: "entriesPosted s \<Longrightarrow> entriesPosted (addSubject s e)"
  by (auto simp: entriesPosted_def getSubject_addSubject posted_addSubject split: if_splits)

lemma entriesPosted_removeSubject: "entriesPosted s \<Longrightarrow> entriesPosted (snd (removeSubject s i))"
  by (auto simp: entriesPosted_def getSubject_removeSubject posted_removeSubject
      split: if_splits option.splits)

lemma entriesPosted_updateSubject: "entriesPosted s \<Longrightarrow> entriesPosted (updateSubject s e)"
  unfolding entriesPosted_def getSubject_updateSubject posted_updateSubject
  by (auto split: if_splits option.splits)

lemma entriesPosted_fold_addSubject:
  "entriesPosted s \<Longrightarrow> entriesPosted (fold (\<lambda>entry acc. addSubject acc entry) es s)"
  by (induction es arbitrary: s) (simp_all add: entriesPosted_addSubject)

lemma reachable_entriesPosted: "reachable s \<Longrightarrow> entriesPosted s"
proof (induction rule: reachable.induct)
  case reach_new
  show ?case by (rule entriesPosted_emptyIndex)
next
  case (reach_build s entries)
  show ?case unfolding buildFromSubjects_def
    by (rule entriesPosted_fold_addSubject) (rule entriesPosted_clear)
qed (simp_all add: entriesPosted_addSubject entriesPosted_removeSubject
      entriesPosted_updateSubject entriesPosted_clear)

lemma indexKeyword_posted:
  assumes "map_of m k = Some ids" "i \<in> set ids"
  shows "indexKeyword i k m = m"
  using assms by (simp add: indexKeyword_def Map_has_def Map_get_def Set_add_def Map_set_same)

lemma fold_indexKeyword_posted:
  "(\<forall>k \<in> set ks. \<exists>ids. map_of m k = Some ids \<and> i \<in> set ids) \<Longrightarrow> fold (indexKeyword i) ks m = m"
  by (induction ks) (auto simp: indexKeyword_posted)

lemma map_of_fold_indexKeyword:
  assumes "k \<in> set ks"
  shows "\<exists>ids. map_of (fold (indexKeyword i) ks m) k = Some ids \<and> i \<in> set ids"
proof -
  have "postingsOf (fold (indexKeyword i) ks m) k
        = Some (insert i (case postingsOf m k of None \<Rightarrow> {} | Some S \<Rightarrow> S))"
    using assms by (simp add: postingsOf_fold_indexKeyword)
  then show ?thesis by (auto simp: postingsOf_def Map_get_def)
qed


section \<open>Index maintenance\<close>

text \<open>
  C7. Adding the same entry twice in succession leaves the index in the state a single add
  leaves it in: the same entries and posting lists, in the same order.
\<close>

theorem addSubject_idempotent: "addSubject (addSubject s e) e = addSubject s e"
proof -
  let ?m = "fold (indexKeyword (idHash e)) (normalizedKeywords e) (keywordToSubjects s)"
  have k2s: "fold (indexKeyword (idHash e)) (normalizedKeywords e) ?m = ?m"
    by (rule fold_indexKeyword_posted) (simp add: map_of_fold_indexKeyword)
  have subj: "Map_set (Map_set (subjects s) (idHash e) e) (idHash e) e = Map_set (subjects s) (idHash e) e"
    by (rule Map_set_same) (simp add: map_of_Map_set)
  show ?thesis by (simp add: addSubject_def Let_def k2s subj)
qed

text \<open>
  C9. addSubject never takes an identifier out of a posting list and never deletes a posting
  list: an identifier posted under a keyword before the call is posted under it afterwards,
  and a keyword that has a posting list keeps one. In particular, when the call overwrites
  the entry stored under its identifier in a reachable state, a keyword of the old entry that
  the new entry does not have still lists the identifier.
\<close>

theorem addSubject_keeps_postings:
  "(posted s k i \<longrightarrow> posted (addSubject s e) k i) \<and>
   (Map_has (keywordToSubjects s) k \<longrightarrow> Map_has (keywordToSubjects (addSubject s e)) k) \<and>
   (reachable s \<and> getSubject s (idHash e) = Some old \<and>
      k \<in> set (normalizedKeywords old) \<and> k \<notin> set (normalizedKeywords e)
    \<longrightarrow> posted (addSubject s e) k (idHash e))"
proof (intro conjI impI)
  assume "posted s k i"
  then show "posted (addSubject s e) k i" by (simp add: posted_addSubject)
next
  assume "Map_has (keywordToSubjects s) k"
  then have "postingList s k \<noteq> None"
    by (simp add: Map_has_def postingList_def postingsOf_def Map_get_def)
  then have "postingList (addSubject s e) k \<noteq> None"
    by (simp add: postingList_addSubject)
  then show "Map_has (keywordToSubjects (addSubject s e)) k"
    by (simp add: Map_has_def postingList_def postingsOf_def Map_get_def)
next
  assume a: "reachable s \<and> getSubject s (idHash e) = Some old \<and>
      k \<in> set (normalizedKeywords old) \<and> k \<notin> set (normalizedKeywords e)"
  then have "entriesPosted s" by (simp add: reachable_entriesPosted)
  with a have "posted s k (idHash e)" by (auto simp: entriesPosted_def)
  then show "posted (addSubject s e) k (idHash e)" by (simp add: posted_addSubject)
qed

theorem addSubject_keeps_postings_witness:
  "posted projectIndex ''project'' ''s1'' \<and>
   posted (addSubject projectIndex entryProjects) ''project'' ''s1'' \<and>
   Map_has (keywordToSubjects projectIndex) ''project'' \<and>
   Map_has (keywordToSubjects (addSubject projectIndex entryProjects)) ''project'' \<and>
   reachable projectIndex \<and>
   getSubject projectIndex (idHash entryProjects) = Some entryProject \<and>
   ''project'' \<in> set (normalizedKeywords entryProject) \<and>
   ''project'' \<notin> set (normalizedKeywords entryProjects) \<and>
   posted (addSubject projectIndex entryProjects) ''project'' (idHash entryProjects)"
proof -
  have r: "reachable projectIndex"
    unfolding projectIndex_def by (intro reachable.intros)
  have p: "posted projectIndex ''project'' ''s1''" by code_simp
  have h: "Map_has (keywordToSubjects projectIndex) ''project''" by code_simp
  have g: "getSubject projectIndex (idHash entryProjects) = Some entryProject" by code_simp
  have k1: "''project'' \<in> set (normalizedKeywords entryProject)" by code_simp
  have k2: "''project'' \<notin> set (normalizedKeywords entryProjects)" by code_simp
  show ?thesis
    using addSubject_keeps_postings
      [of projectIndex "''project''" "''s1''" entryProjects entryProject] r p h g k1 k2
    by simp
qed

section \<open>The keyword normalizer\<close>











section \<open>Jaccard similarity\<close>

lemma intersection_fold:
  "distinct acc \<Longrightarrow>
   distinct (fold (\<lambda>item acc. if Set_has B item then Set_add acc item else acc) A acc) \<and>
   set (fold (\<lambda>item acc. if Set_has B item then Set_add acc item else acc) A acc)
     = set acc \<union> (set A \<inter> set B)"
  by (induction A arbitrary: acc) (auto simp: Set_has_def Set_add_def)

lemma length_intersection:
  "length (fold (\<lambda>item acc. if Set_has B item then Set_add acc item else acc) A [])
     = card (set A \<inter> set B)"
proof -
  let ?xs = "fold (\<lambda>item acc. if Set_has B item then Set_add acc item else acc) A []"
  have d: "distinct ?xs" and s: "set ?xs = set A \<inter> set B"
    using intersection_fold [of "[]" B A] by simp_all
  show ?thesis using distinct_card [OF d] s by simp
qed

lemma length_Set_new: "length (Set_new xs) = card (set xs)"
  using distinct_card [OF distinct_Set_new, of xs] by (simp add: set_Set_new)

lemma jaccard_eq:
  "calculateJaccardSimilarity A B =
     (if set A \<union> set B = {} then 0
      else real (card (set A \<inter> set B)) / real (card (set A \<union> set B)))"
proof -
  have u: "length (Set_new (A @ B)) = card (set A \<union> set B)"
    by (simp add: length_Set_new)
  have z: "(card (set A \<union> set B) = 0) = (set A \<union> set B = {})"
    by simp
  show ?thesis
    unfolding calculateJaccardSimilarity_def Let_def u z length_intersection by simp
qed

section \<open>Ranking and the limit\<close>

lemma sorted_sortByRelevance:
  "sorted_wrt (\<lambda>a b. relevanceScore a \<ge> relevanceScore b) (sortByRelevance ms)"
proof -
  have "sorted (map (\<lambda>m. - relevanceScore m) (sortByRelevance ms))"
    unfolding sortByRelevance_def by (rule sorted_sort_key)
  then show ?thesis by (simp add: sorted_wrt_map sorted_wrt_iff_nth_less sorted_iff_nth_mono_less)
qed

lemma sorted_findByKeywords:
  "sorted_wrt (\<lambda>a b. relevanceScore a \<ge> relevanceScore b) (findByKeywords s kws)"
  by (simp add: findByKeywords_def Let_def sorted_sortByRelevance)

lemma slice0_nonneg: "0 \<le> n \<Longrightarrow> slice0 xs n = take (nat n) xs"
  by (auto simp: slice0_def Let_def min_def)

lemma slice0_negative:
  "n < 0 \<Longrightarrow> slice0 xs n = take (length xs - nat (- n)) xs"
proof -
  assume n: "n < 0"
  have "nat (max (int (length xs) + n) 0) = length xs - nat (- n)"
    using n by arith
  with n show ?thesis by (simp add: slice0_def Let_def)
qed

lemma sorted_head_greatest:
  assumes "sorted_wrt (\<lambda>a b. relevanceScore a \<ge> relevanceScore b) xs" "m \<in> set xs"
  shows "relevanceScore m \<le> relevanceScore (hd xs)"
  using assms by (cases xs) auto

text \<open>
  C6, as the code has it. The matches of findByKeywords come in non-increasing order of
  relevance score. findSimilar with a limit \<open>n \<ge> 0\<close> returns the first \<open>n\<close> of them, all of
  them when there are no more than \<open>n\<close>, and the first 10 when no limit is given. On three
  matches, the limit 1 returns one match, the first, and no match scores higher. A negative
  limit is not a count: \<^verbatim>\<open>slice(0, n)\<close> then leaves out the last \<open>-n\<close> matches.
\<close>

theorem findByKeywords_ranked:
  "sorted_wrt (\<lambda>a b. relevanceScore a \<ge> relevanceScore b) (findByKeywords s kws) \<and>
   (0 \<le> n \<longrightarrow> findSimilar s kws (Some n) = take (nat n) (findByKeywords s kws)) \<and>
   (int (length (findByKeywords s kws)) \<le> n \<longrightarrow>
      findSimilar s kws (Some n) = findByKeywords s kws) \<and>
   findSimilar s kws None = take 10 (findByKeywords s kws) \<and>
   (length (findByKeywords s kws) = 3 \<longrightarrow>
      findSimilar s kws (Some 1) = [hd (findByKeywords s kws)] \<and>
      (\<forall>m \<in> set (findByKeywords s kws).
         relevanceScore m \<le> relevanceScore (hd (findByKeywords s kws)))) \<and>
   (n < 0 \<longrightarrow>
      findSimilar s kws (Some n)
        = take (length (findByKeywords s kws) - nat (- n)) (findByKeywords s kws))"
proof (intro conjI impI ballI)
  show "sorted_wrt (\<lambda>a b. relevanceScore a \<ge> relevanceScore b) (findByKeywords s kws)"
    by (rule sorted_findByKeywords)
next
  assume "0 \<le> n"
  then show "findSimilar s kws (Some n) = take (nat n) (findByKeywords s kws)"
    by (simp add: findSimilar_def slice0_nonneg)
next
  assume "int (length (findByKeywords s kws)) \<le> n"
  then show "findSimilar s kws (Some n) = findByKeywords s kws"
    by (simp add: findSimilar_def slice0_nonneg)
next
  show "findSimilar s kws None = take 10 (findByKeywords s kws)"
    by (simp add: findSimilar_def slice0_nonneg)
next
  assume "length (findByKeywords s kws) = 3"
  then show "findSimilar s kws (Some 1) = [hd (findByKeywords s kws)]"
    by (cases "findByKeywords s kws") (simp_all add: findSimilar_def slice0_nonneg)
next
  fix m
  assume "m \<in> set (findByKeywords s kws)"
  then show "relevanceScore m \<le> relevanceScore (hd (findByKeywords s kws))"
    by (rule sorted_head_greatest [OF sorted_findByKeywords])
next
  assume "n < 0"
  then show "findSimilar s kws (Some n)
        = take (length (findByKeywords s kws) - nat (- n)) (findByKeywords s kws)"
    by (simp add: findSimilar_def slice0_negative)
qed

theorem findByKeywords_ranked_witness:
  "(0::int) \<le> 3 \<and>
   int (length (findByKeywords threeIndex [''rust'', ''web''])) \<le> 3 \<and>
   length (findByKeywords threeIndex [''rust'', ''web'']) = 3 \<and>
   map relevanceScore (findByKeywords threeIndex [''rust'', ''web'']) = [1, 1 / 2, 1 / 3] \<and>
   sorted_wrt (\<lambda>a b. relevanceScore a \<ge> relevanceScore b) (findByKeywords threeIndex [''rust'', ''web'']) \<and>
   findSimilar threeIndex [''rust'', ''web''] (Some 3) = findByKeywords threeIndex [''rust'', ''web''] \<and>
   findSimilar threeIndex [''rust'', ''web''] (Some 1) = [hd (findByKeywords threeIndex [''rust'', ''web''])] \<and>
   map match_idHash (findSimilar threeIndex [''rust'', ''web''] (Some 1)) = [''s2''] \<and>
   (- 1 :: int) < 0 \<and>
   findSimilar threeIndex [''rust'', ''web''] (Some (- 1))
     = take (length (findByKeywords threeIndex [''rust'', ''web'']) - nat (- (- 1)))
         (findByKeywords threeIndex [''rust'', ''web''])"
proof -
  note R = findByKeywords_ranked
  have l: "length (findByKeywords threeIndex [''rust'', ''web'']) = 3" by code_simp
  have sc: "map relevanceScore (findByKeywords threeIndex [''rust'', ''web'']) = [1, 1 / 2, 1 / 3]"
    by code_simp
  have top: "map match_idHash (findSimilar threeIndex [''rust'', ''web''] (Some 1)) = [''s2'']"
    by code_simp
  have p: "(0::int) \<le> 3" by simp
  have q: "(- 1 :: int) < 0" by simp
  have li: "int (length (findByKeywords threeIndex [''rust'', ''web''])) \<le> 3"
    using l by simp
  note R3 = R [of threeIndex "[''rust'', ''web'']" 3]
  have c1: "sorted_wrt (\<lambda>a b. relevanceScore a \<ge> relevanceScore b)
              (findByKeywords threeIndex [''rust'', ''web''])"
    by (rule R3 [THEN conjunct1])
  have c2: "findSimilar threeIndex [''rust'', ''web''] (Some 3) = findByKeywords threeIndex [''rust'', ''web'']"
    by (rule R3 [THEN conjunct2, THEN conjunct2, THEN conjunct1, THEN mp, OF li])
  have c3: "findSimilar threeIndex [''rust'', ''web''] (Some 1) = [hd (findByKeywords threeIndex [''rust'', ''web''])]"
    by (rule R3 [THEN conjunct2, THEN conjunct2, THEN conjunct2, THEN conjunct2, THEN conjunct1,
          THEN mp, OF l, THEN conjunct1])
  have c4: "findSimilar threeIndex [''rust'', ''web''] (Some (- 1))
     = take (length (findByKeywords threeIndex [''rust'', ''web'']) - nat (- (- 1)))
         (findByKeywords threeIndex [''rust'', ''web''])"
    by (rule R [of threeIndex "[''rust'', ''web'']" "- 1", THEN conjunct2, THEN conjunct2,
          THEN conjunct2, THEN conjunct2, THEN conjunct2, THEN mp, OF q])
  show ?thesis
    by (intro conjI) (rule p li l sc c1 c2 c3 top q c4)+
qed

text \<open>
  C6 as stated fails for a negative limit: on three matches the limit -1 returns the first
  two, which are not the first -1 of them.
\<close>

theorem findSimilar_negative_limit_counterexample:
  "map match_idHash (findByKeywords threeIndex [''rust'', ''web'']) = [''s2'', ''s3'', ''s1''] \<and>
   map match_idHash (findSimilar threeIndex [''rust'', ''web''] (Some (- 1))) = [''s2'', ''s3''] \<and>
   findSimilar threeIndex [''rust'', ''web''] (Some (- 1))
     \<noteq> take (nat (- 1)) (findByKeywords threeIndex [''rust'', ''web''])"
proof -
  have a: "map match_idHash (findByKeywords threeIndex [''rust'', ''web'']) = [''s2'', ''s3'', ''s1'']"
    by code_simp
  have b: "map match_idHash (findSimilar threeIndex [''rust'', ''web''] (Some (- 1))) = [''s2'', ''s3'']"
    by code_simp
  from b have "findSimilar threeIndex [''rust'', ''web''] (Some (- 1)) \<noteq> []" by auto
  then have c: "findSimilar threeIndex [''rust'', ''web''] (Some (- 1))
     \<noteq> take (nat (- 1)) (findByKeywords threeIndex [''rust'', ''web''])"
    by simp
  from a b c show ?thesis by (intro conjI)
qed

section \<open>Queries after an update\<close>

lemma set_collectCandidates_fold:
  "set (fold (\<lambda>keyword cands.
        case Map_get (keywordToSubjects s) keyword of
          None \<Rightarrow> cands
        | Some ids \<Rightarrow> fold (\<lambda>i acc. Set_add acc i) ids cands) nks acc)
   = set acc \<union> {i. \<exists>k \<in> set nks. posted s k i}"
proof (induction nks arbitrary: acc)
  case Nil
  show ?case by simp
next
  case (Cons a nks)
  show ?case
    by (cases "Map_get (keywordToSubjects s) a")
       (auto simp: Cons.IH posted_def Set_has_def set_fold_Set_add)
qed

lemma set_collectCandidates:
  "set (collectCandidates s nks) = {i. \<exists>k \<in> set nks. posted s k i}"
  by (simp add: collectCandidates_def set_collectCandidates_fold)

lemma set_scoreCandidate:
  "m \<in> set (scoreCandidate s q c) \<Longrightarrow>
     \<exists>e. getSubject s c = Some e \<and> match_idHash m = idHash e \<and>
         matchingKeywords m = findMatchingKeywords q (normalizedKeywords e) \<and>
         findMatchingKeywords q (normalizedKeywords e) \<noteq> [] \<and>
         relevanceScore m = calculateJaccardSimilarity q (normalizedKeywords e)"
  by (cases "Map_get (subjects s) c")
     (auto simp: scoreCandidate_def getSubject_def Let_def split: if_splits)

lemma scoreCandidate_hit:
  "getSubject s c = Some e \<Longrightarrow> findMatchingKeywords q (normalizedKeywords e) \<noteq> [] \<Longrightarrow>
     \<exists>m \<in> set (scoreCandidate s q c). match_idHash m = idHash e"
  by (simp add: scoreCandidate_def getSubject_def Let_def)

lemma set_findByKeywords:
  "set (findByKeywords s kws) =
     (\<Union>c \<in> set (collectCandidates s (normalizeKeywords kws)).
        set (scoreCandidate s (Set_new (normalizeKeywords kws)) c))"
  by (simp add: findByKeywords_def Let_def sortByRelevance_def)

lemma returnsSubject_iff:
  "returnsSubject s kws i =
     (\<exists>c e. (\<exists>k \<in> set (normalizeKeywords kws). posted s k c) \<and> getSubject s c = Some e \<and>
        idHash e = i \<and>
        findMatchingKeywords (Set_new (normalizeKeywords kws)) (normalizedKeywords e) \<noteq> [])"
proof
  assume "returnsSubject s kws i"
  then obtain m where m: "m \<in> set (findByKeywords s kws)" "match_idHash m = i"
    by (auto simp: returnsSubject_def list_ex_iff)
  then obtain c where c: "c \<in> set (collectCandidates s (normalizeKeywords kws))"
      "m \<in> set (scoreCandidate s (Set_new (normalizeKeywords kws)) c)"
    by (auto simp: set_findByKeywords)
  from set_scoreCandidate [OF c(2)] m(2) c(1)
  show "\<exists>c e. (\<exists>k \<in> set (normalizeKeywords kws). posted s k c) \<and> getSubject s c = Some e \<and>
        idHash e = i \<and>
        findMatchingKeywords (Set_new (normalizeKeywords kws)) (normalizedKeywords e) \<noteq> []"
    by (auto simp: set_collectCandidates)
next
  assume "\<exists>c e. (\<exists>k \<in> set (normalizeKeywords kws). posted s k c) \<and> getSubject s c = Some e \<and>
        idHash e = i \<and>
        findMatchingKeywords (Set_new (normalizeKeywords kws)) (normalizedKeywords e) \<noteq> []"
  then obtain c e where ce: "\<exists>k \<in> set (normalizeKeywords kws). posted s k c"
      "getSubject s c = Some e" "idHash e = i"
      "findMatchingKeywords (Set_new (normalizeKeywords kws)) (normalizedKeywords e) \<noteq> []"
    by blast
  from scoreCandidate_hit [OF ce(2) ce(4)] obtain m
    where "m \<in> set (scoreCandidate s (Set_new (normalizeKeywords kws)) c)" "match_idHash m = idHash e"
    by blast
  moreover have "c \<in> set (collectCandidates s (normalizeKeywords kws))"
    using ce(1) by (simp add: set_collectCandidates)
  ultimately have "\<exists>m \<in> set (findByKeywords s kws). match_idHash m = i"
    using ce(3) by (auto simp: set_findByKeywords)
  then show "returnsSubject s kws i"
    by (simp add: returnsSubject_def list_ex_iff)
qed

lemma findMatchingKeywords_exact:
  "k \<in> set q \<Longrightarrow> k \<in> set nk \<Longrightarrow> findMatchingKeywords q nk \<noteq> []"
  by (auto simp: findMatchingKeywords_def Set_has_def filter_empty_conv)

lemma sameContents_update:
  assumes "entriesPosted s"
  shows "sameContents (updateSubject s e) (addSubject (snd (removeSubject s (idHash e))) e)"
proof -
  have g: "getSubject (updateSubject s e) i
           = getSubject (addSubject (snd (removeSubject s (idHash e))) e) i" for i
    by (simp add: getSubject_updateSubject getSubject_addSubject getSubject_removeSubject)
  have p: "postingList (updateSubject s e) k
           = postingList (addSubject (snd (removeSubject s (idHash e))) e) k" for k
  proof (cases "getSubject s (idHash e)")
    case None
    then show ?thesis
      by (simp add: postingList_updateSubject postingList_addSubject postingList_removeSubject)
  next
    case (Some old)
    show ?thesis
    proof (cases "k \<in> set (normalizedKeywords old) \<and> k \<in> set (normalizedKeywords e)")
      case True
      with assms Some have "posted s k (idHash e)" by (auto simp: entriesPosted_def)
      then obtain S where S: "postingList s k = Some S" "idHash e \<in> S"
        by (auto simp: posted_iff)
      then have "insert (idHash e) (S - {idHash e}) = S" by auto
      with True Some S show ?thesis
        by (auto simp: postingList_updateSubject postingList_addSubject postingList_removeSubject)
    next
      case False
      with Some show ?thesis
        by (auto simp: postingList_updateSubject postingList_addSubject postingList_removeSubject
            split: option.splits)
    qed
  qed
  show ?thesis unfolding sameContents_def using g p by blast
qed

lemma returnsSubject_after_update:
  assumes inv': "entriesPosted (updateSubject s e)"
    and ne: "keywords' e \<noteq> []"
    and nk: "set (normalizedKeywords e) = set (normalizeKeywords (keywords' e))"
  shows "returnsSubject (updateSubject s e) (keywords' e) (idHash e)"
proof -
  from ne obtain k where k: "k \<in> set (normalizeKeywords (keywords' e))"
    by (cases "keywords' e") (auto simp: normalizeKeywords_def)
  with nk have kn: "k \<in> set (normalizedKeywords e)" by simp
  have g: "getSubject (updateSubject s e) (idHash e) = Some e"
    by (simp add: getSubject_updateSubject)
  from inv' g have "\<forall>k \<in> set (normalizedKeywords e). posted (updateSubject s e) k (idHash e)"
    unfolding entriesPosted_def by blast
  with kn have p: "posted (updateSubject s e) k (idHash e)" by blast
  have "k \<in> set (Set_new (normalizeKeywords (keywords' e)))"
    using k by (simp add: set_Set_new)
  then have fm: "findMatchingKeywords (Set_new (normalizeKeywords (keywords' e))) (normalizedKeywords e) \<noteq> []"
    using kn by (rule findMatchingKeywords_exact)
  have ex: "\<exists>k \<in> set (normalizeKeywords (keywords' e)). posted (updateSubject s e) k (idHash e)"
    using k p by blast
  show ?thesis
    unfolding returnsSubject_iff
    by (rule exI [of _ "idHash e"], rule exI [of _ e]) (simp add: ex g fm)
qed

lemma not_returned_for_removed:
  assumes inv': "entriesPosted (updateSubject s e)"
    and old: "getSubject s (idHash e) = Some old"
    and q: "set (normalizeKeywords q) \<subseteq> set (normalizedKeywords old) - set (normalizedKeywords e)"
  shows "\<not> returnsSubject (updateSubject s e) q (idHash e)"
proof
  assume "returnsSubject (updateSubject s e) q (idHash e)"
  then obtain c e' where ce: "\<exists>k \<in> set (normalizeKeywords q). posted (updateSubject s e) k c"
      "getSubject (updateSubject s e) c = Some e'" "idHash e' = idHash e"
    unfolding returnsSubject_iff by blast
  then obtain k where k: "k \<in> set (normalizeKeywords q)" "posted (updateSubject s e) k c"
    by blast
  from inv' ce(2) have "idHash e' = c" unfolding entriesPosted_def by blast
  with ce(3) have c: "c = idHash e" by simp
  from q k(1) have kk: "k \<in> set (normalizedKeywords old)" "k \<notin> set (normalizedKeywords e)"
    by blast+
  have "\<not> posted (updateSubject s e) k (idHash e)"
    using kk by (simp add: posted_updateSubject old)
  with k(2) c show False by simp
qed

text \<open>
  C4, as the code has it. In a state the public operations reach, updateSubject leaves the
  stored entries and the posting lists that removeSubject followed by addSubject leaves (the
  same entries and the same sets, the iteration order apart), and when no entry is stored
  under the identifier it is addSubject. Afterwards an entry that has keywords, with the
  normalized set createIndexEntry derives from them, is returned by findByKeywords on its
  keywords; and it is not returned by a query whose keywords all normalize to keywords of
  the old entry that the new one does not have.
\<close>

theorem updateSubject_as_remove_add:
  assumes "reachable s"
  shows "sameContents (updateSubject s e) (addSubject (snd (removeSubject s (idHash e))) e) \<and>
    (getSubject s (idHash e) = None \<longrightarrow>
       updateSubject s e = addSubject s e \<and> removeSubject s (idHash e) = (False, s)) \<and>
    (keywords' e \<noteq> [] \<and> set (normalizedKeywords e) = set (normalizeKeywords (keywords' e)) \<longrightarrow>
       returnsSubject (updateSubject s e) (keywords' e) (idHash e)) \<and>
    (getSubject s (idHash e) = Some old \<and>
       set (normalizeKeywords q) \<subseteq> set (normalizedKeywords old) - set (normalizedKeywords e) \<longrightarrow>
       \<not> returnsSubject (updateSubject s e) q (idHash e))"
proof -
  have inv: "entriesPosted s" using assms by (rule reachable_entriesPosted)
  have inv': "entriesPosted (updateSubject s e)" using inv by (rule entriesPosted_updateSubject)
  have 1: "sameContents (updateSubject s e) (addSubject (snd (removeSubject s (idHash e))) e)"
    using inv by (rule sameContents_update)
  have 2: "getSubject s (idHash e) = None \<longrightarrow>
       updateSubject s e = addSubject s e \<and> removeSubject s (idHash e) = (False, s)"
    by (simp add: updateSubject_def removeSubject_def getSubject_def)
  have 3: "keywords' e \<noteq> [] \<and> set (normalizedKeywords e) = set (normalizeKeywords (keywords' e)) \<longrightarrow>
       returnsSubject (updateSubject s e) (keywords' e) (idHash e)"
    using returnsSubject_after_update [OF inv'] by blast
  have 4: "getSubject s (idHash e) = Some old \<and>
       set (normalizeKeywords q) \<subseteq> set (normalizedKeywords old) - set (normalizedKeywords e) \<longrightarrow>
       \<not> returnsSubject (updateSubject s e) q (idHash e)"
    using not_returned_for_removed [OF inv'] by blast
  from 1 2 3 4 show ?thesis by blast
qed

theorem updateSubject_as_remove_add_witness:
  "reachable rustIndex \<and>
   sameContents (updateSubject rustIndex rustUpdated)
     (addSubject (snd (removeSubject rustIndex (idHash rustUpdated))) rustUpdated) \<and>
   keywords' rustUpdated \<noteq> [] \<and>
   set (normalizedKeywords rustUpdated) = set (normalizeKeywords (keywords' rustUpdated)) \<and>
   returnsSubject (updateSubject rustIndex rustUpdated) (keywords' rustUpdated) (idHash rustUpdated) \<and>
   getSubject rustIndex (idHash rustUpdated) = Some rustSystems \<and>
   set (normalizeKeywords [''Systems!''])
     \<subseteq> set (normalizedKeywords rustSystems) - set (normalizedKeywords rustUpdated) \<and>
   \<not> returnsSubject (updateSubject rustIndex rustUpdated) [''Systems!''] (idHash rustUpdated) \<and>
   reachable emptyIndex \<and>
   getSubject emptyIndex (idHash rustUpdated) = None \<and>
   updateSubject emptyIndex rustUpdated = addSubject emptyIndex rustUpdated"
proof -
  have r: "reachable rustIndex"
    unfolding rustIndex_def by (intro reachable.intros)
  have r0: "reachable emptyIndex" by (rule reach_new)
  have ne: "keywords' rustUpdated \<noteq> []" by code_simp
  have nk: "set (normalizedKeywords rustUpdated) = set (normalizeKeywords (keywords' rustUpdated))"
    by code_simp
  have old: "getSubject rustIndex (idHash rustUpdated) = Some rustSystems" by code_simp
  have q: "set (normalizeKeywords [''Systems!''])
     \<subseteq> set (normalizedKeywords rustSystems) - set (normalizedKeywords rustUpdated)"
    by code_simp
  have none: "getSubject emptyIndex (idHash rustUpdated) = None" by code_simp
  show ?thesis
    using updateSubject_as_remove_add [OF r, of rustUpdated rustSystems "[''Systems!'']"]
      updateSubject_as_remove_add [OF r0, of rustUpdated rustSystems "[]"]
      r r0 ne nk old q none
    by blast
qed

text \<open>
  C4 as stated fails in two places. An entry without keywords is not returned after the
  update: the query on its keywords, the empty list, returns nothing. And the state
  updateSubject leaves is not identical to the one removeSubject and addSubject leave:
  updateSubject keeps the entry's place in the Map of subjects, the other two move it to
  the end, which getAllSubjects, exportState and the order of equal scores show.
\<close>

theorem updateSubject_no_keywords_counterexample:
  "\<not> returnsSubject (updateSubject emptyIndex entryNoKeywords)
       (keywords' entryNoKeywords) (idHash entryNoKeywords) \<and>
   map fst (subjects (updateSubject rustIndex rustUpdated)) = [''s1'', ''s2''] \<and>
   map fst (subjects (addSubject (snd (removeSubject rustIndex (idHash rustUpdated))) rustUpdated))
     = [''s2'', ''s1'']"
proof -
  have a: "\<not> returnsSubject (updateSubject emptyIndex entryNoKeywords)
       (keywords' entryNoKeywords) (idHash entryNoKeywords)"
    by code_simp
  have b: "map fst (subjects (updateSubject rustIndex rustUpdated)) = [''s1'', ''s2'']"
    by code_simp
  have c: "map fst (subjects (addSubject (snd (removeSubject rustIndex (idHash rustUpdated))) rustUpdated))
     = [''s2'', ''s1'']"
    by code_simp
  from a b c show ?thesis by (intro conjI)
qed


section \<open>Postings left over by addSubject on a stored identifier\<close>

text \<open>
  removeSubject takes the identifier out of the posting lists of the keywords of the entry it
  finds. Where every posting is backed by a stored entry nothing else lists the identifier,
  and removeSubject, updateSubject, clear and addSubject of a new identifier keep it so.
  addSubject on a stored identifier replaces the entry and leaves the postings of the old one.
\<close>

lemma removeSubject_unknown: "getSubject s i = None \<Longrightarrow> removeSubject s i = (False, s)"
  by (simp add: removeSubject_def getSubject_def)

lemma removeSubject_known:
  assumes "getSubject s i = Some e"
  shows "fst (removeSubject s i) = True"
    and "getSubject (snd (removeSubject s i)) i = None"
    and "k \<in> set (normalizedKeywords e) \<Longrightarrow> \<not> posted (snd (removeSubject s i)) k i"
  using assms
  by (simp_all add: getSubject_removeSubject posted_removeSubject)
     (simp add: removeSubject_def getSubject_def)

lemma removeSubject_clean_when_backed:
  assumes "postingsBacked s"
  shows "\<not> posted (snd (removeSubject s i)) k i"
proof (cases "getSubject s i")
  case None
  have "\<not> posted s k i"
  proof
    assume "posted s k i"
    with assms obtain e where "getSubject s i = Some e"
      unfolding postingsBacked_def by blast
    with None show False by simp
  qed
  with None show ?thesis by (simp add: removeSubject_unknown)
next
  case (Some e)
  show ?thesis
  proof
    assume p: "posted (snd (removeSubject s i)) k i"
    with Some have ps: "posted s k i" and n: "k \<notin> set (normalizedKeywords e)"
      by (simp_all add: posted_removeSubject)
    from assms ps obtain e' where "getSubject s i = Some e'" "k \<in> set (normalizedKeywords e')"
      unfolding postingsBacked_def by blast
    with Some n show False by simp
  qed
qed

lemma postingsBacked_emptyIndex: "postingsBacked emptyIndex"
  by (simp add: postingsBacked_def emptyIndex_def posted_def Map_get_def)

lemma postingsBacked_clear: "postingsBacked (clear s)"
  by (simp add: postingsBacked_def clear_def posted_def Map_get_def)

lemma postingsBacked_addSubject_new:
  assumes "postingsBacked s" "getSubject s (idHash e) = None"
  shows "postingsBacked (addSubject s e)"
  unfolding postingsBacked_def
proof (intro allI impI)
  fix k i
  assume "posted (addSubject s e) k i"
  then consider "posted s k i" | "i = idHash e" "k \<in> set (normalizedKeywords e)"
    by (auto simp: posted_addSubject)
  then show "\<exists>e'. getSubject (addSubject s e) i = Some e' \<and> k \<in> set (normalizedKeywords e')"
  proof cases
    case 1
    with assms(1) obtain e' where e': "getSubject s i = Some e'" "k \<in> set (normalizedKeywords e')"
      unfolding postingsBacked_def by blast
    with assms(2) have "i \<noteq> idHash e" by auto
    with e' show ?thesis by (simp add: getSubject_addSubject)
  next
    case 2
    then show ?thesis by (simp add: getSubject_addSubject)
  qed
qed

lemma postingsBacked_removeSubject:
  assumes "postingsBacked s"
  shows "postingsBacked (snd (removeSubject s j))"
  unfolding postingsBacked_def
proof (intro allI impI)
  fix k i
  assume p: "posted (snd (removeSubject s j)) k i"
  show "\<exists>e. getSubject (snd (removeSubject s j)) i = Some e \<and> k \<in> set (normalizedKeywords e)"
  proof (cases "getSubject s j")
    case None
    then have "snd (removeSubject s j) = s" by (simp add: removeSubject_unknown)
    with p assms show ?thesis unfolding postingsBacked_def by simp
  next
    case (Some old)
    with p have ps: "posted s k i" and n: "\<not> (i = j \<and> k \<in> set (normalizedKeywords old))"
      by (simp_all add: posted_removeSubject)
    from assms ps obtain e where e: "getSubject s i = Some e" "k \<in> set (normalizedKeywords e)"
      unfolding postingsBacked_def by blast
    with n Some have "i \<noteq> j" by auto
    with e show ?thesis by (simp add: getSubject_removeSubject)
  qed
qed

lemma postingsBacked_updateSubject:
  assumes "postingsBacked s"
  shows "postingsBacked (updateSubject s e)"
proof (cases "getSubject s (idHash e)")
  case None
  then have "updateSubject s e = addSubject s e"
    by (simp add: updateSubject_def getSubject_def)
  with assms None show ?thesis by (simp add: postingsBacked_addSubject_new)
next
  case (Some old)
  show ?thesis
    unfolding postingsBacked_def
  proof (intro allI impI)
    fix k i
    assume "posted (updateSubject s e) k i"
    then consider
        "posted s k i" "\<not> (i = idHash e \<and> k \<in> set (normalizedKeywords old) - set (normalizedKeywords e))"
      | "i = idHash e" "k \<in> set (normalizedKeywords e)"
      using Some by (auto simp: posted_updateSubject)
    then show "\<exists>e'. getSubject (updateSubject s e) i = Some e' \<and> k \<in> set (normalizedKeywords e')"
    proof cases
      case 1
      from assms 1(1) obtain e' where e': "getSubject s i = Some e'" "k \<in> set (normalizedKeywords e')"
        unfolding postingsBacked_def by blast
      show ?thesis
      proof (cases "i = idHash e")
        case True
        with e' Some have "e' = old" by simp
        with e' 1(2) True have "k \<in> set (normalizedKeywords e)" by auto
        with True show ?thesis by (simp add: getSubject_updateSubject)
      next
        case False
        with e' show ?thesis by (simp add: getSubject_updateSubject)
      qed
    next
      case 2
      then show ?thesis by (simp add: getSubject_updateSubject)
    qed
  qed
qed

text \<open>
  C5 on the code: an identifier added twice with different keywords and then removed.
  removeSubject returns true and the entry is gone, but the posting list of the first
  entry's keyword still holds the identifier and stays in the index.
\<close>

theorem removeSubject_leaves_stale_posting:
  "reachable readdedIndex \<and>
   fst (removeSubject readdedIndex ''s1'') = True \<and>
   getSubject (snd (removeSubject readdedIndex ''s1'')) ''s1'' = None \<and>
   posted (snd (removeSubject readdedIndex ''s1'')) ''project'' ''s1'' \<and>
   keywordToSubjects (snd (removeSubject readdedIndex ''s1'')) = [(''project'', [''s1''])]"
proof -
  have r: "reachable readdedIndex"
    unfolding readdedIndex_def by (intro reachable.intros)
  have a: "fst (removeSubject readdedIndex ''s1'') = True" by code_simp
  have b: "getSubject (snd (removeSubject readdedIndex ''s1'')) ''s1'' = None" by code_simp
  have c: "posted (snd (removeSubject readdedIndex ''s1'')) ''project'' ''s1''" by code_simp
  have d: "keywordToSubjects (snd (removeSubject readdedIndex ''s1'')) = [(''project'', [''s1''])]"
    by code_simp
  from r a b c d show ?thesis by simp
qed

lemma match_has_exact_keyword_when_backed:
  assumes "postingsBacked s" "entriesPosted s" "m \<in> set (findByKeywords s kws)"
  shows "\<exists>k e. k \<in> set (normalizeKeywords kws) \<and> getSubject s (match_idHash m) = Some e \<and>
           k \<in> set (normalizedKeywords e)"
proof -
  from assms(3) obtain c where c: "c \<in> set (collectCandidates s (normalizeKeywords kws))"
      "m \<in> set (scoreCandidate s (Set_new (normalizeKeywords kws)) c)"
    by (auto simp: set_findByKeywords)
  from set_scoreCandidate [OF c(2)] obtain e where e: "getSubject s c = Some e" "match_idHash m = idHash e"
    by blast
  from assms(2) e(1) have "idHash e = c" unfolding entriesPosted_def by blast
  with e have g: "getSubject s (match_idHash m) = Some e" by simp
  from c(1) obtain k where k: "k \<in> set (normalizeKeywords kws)" "posted s k c"
    by (auto simp: set_collectCandidates)
  from assms(1) k(2) obtain e' where "getSubject s c = Some e'" "k \<in> set (normalizedKeywords e')"
    unfolding postingsBacked_def by blast
  with e(1) have "k \<in> set (normalizedKeywords e)" by simp
  with k(1) g show ?thesis by blast
qed

text \<open>
  C10 on the code, in states where an identifier was added twice with different keywords.
  The query \<open>project\<close> returns the subject whose only keyword is \<open>projects\<close>: the left-over
  posting makes it a candidate, the substring rule gives it a matching keyword, and its score
  is 0. With keywords that share no substring the candidate has no matching keyword and is
  discarded.
\<close>

theorem findByKeywords_substring_only_match:
  "reachable readdedIndex \<and>
   getSubject readdedIndex ''s1'' = Some entryProjects \<and>
   normalizedKeywords entryProjects = [''projects''] \<and>
   normalizeKeywords [''project''] = [''project''] \<and>
   map match_idHash (findByKeywords readdedIndex [''project'']) = [''s1''] \<and>
   map matchingKeywords (findByKeywords readdedIndex [''project'']) = [[''project'']] \<and>
   map relevanceScore (findByKeywords readdedIndex [''project'']) = [0] \<and>
   reachable alphaBetaIndex \<and>
   collectCandidates alphaBetaIndex (normalizeKeywords [''alpha'']) = [''s1''] \<and>
   getSubject alphaBetaIndex ''s1'' = Some entryBeta \<and>
   findMatchingKeywords (Set_new (normalizeKeywords [''alpha''])) (normalizedKeywords entryBeta) = [] \<and>
   findByKeywords alphaBetaIndex [''alpha''] = []"
proof -
  have r: "reachable readdedIndex"
    unfolding readdedIndex_def by (intro reachable.intros)
  have r2: "reachable alphaBetaIndex"
    unfolding alphaBetaIndex_def by (intro reachable.intros)
  have a: "getSubject readdedIndex ''s1'' = Some entryProjects" by code_simp
  have b: "normalizedKeywords entryProjects = [''projects'']" by code_simp
  have c: "normalizeKeywords [''project''] = [''project'']" by code_simp
  have d: "map match_idHash (findByKeywords readdedIndex [''project'']) = [''s1'']" by code_simp
  have e: "map matchingKeywords (findByKeywords readdedIndex [''project'']) = [[''project'']]"
    by code_simp
  have f: "map relevanceScore (findByKeywords readdedIndex [''project'']) = [0]" by code_simp
  have g: "collectCandidates alphaBetaIndex (normalizeKeywords [''alpha'']) = [''s1'']" by code_simp
  have h: "getSubject alphaBetaIndex ''s1'' = Some entryBeta" by code_simp
  have i: "findMatchingKeywords (Set_new (normalizeKeywords [''alpha''])) (normalizedKeywords entryBeta) = []"
    by code_simp
  have j: "findByKeywords alphaBetaIndex [''alpha''] = []" by code_simp
  from r r2 a b c d e f g h i j show ?thesis by simp
qed

section \<open>The extraction loop\<close>

lemma freqOf_trackKeyword:
  "freqOf (trackKeyword kw freq) k = freqOf freq k + (if toLowerCase kw = k then 1 else 0)"
  by (simp add: freqOf_def trackKeyword_def Let_def Map_get_def map_of_Map_set)

lemma freqOf_fold_trackKeyword:
  "freqOf (fold trackKeyword kws freq) k = freqOf freq k + count_list (map toLowerCase kws) k"
  by (induction kws arbitrary: freq) (simp_all add: freqOf_trackKeyword)

lemma frequencyOr1_freqOf:
  "frequencyOr1 freq kw = (if freqOf freq (toLowerCase kw) = 0 then 1 else freqOf freq (toLowerCase kw))"
  by (simp add: frequencyOr1_def freqOf_def split: option.splits)

lemma foldl_plus_sum_list:
  "foldl (\<lambda>sum kw. sum + f kw) a xs = a + sum_list (map f xs)" for a :: real
  by (induction xs arbitrary: a) simp_all

lemma frequencyIn_snoc:
  "frequencyIn ex (ms @ [m]) k =
     frequencyIn ex ms k + count_list (map toLowerCase (keywordsOf ex m)) k"
  by (simp add: frequencyIn_def)

lemma count_list_pos: "x \<in> set xs \<Longrightarrow> 0 < count_list xs x"
  by (induction xs) auto

text \<open>One round, for a record with keywords.\<close>

lemma calculateConfidence_tracked:
  assumes f: "\<forall>k. freqOf freq k = frequencyIn ex earlier k"
    and kws: "keywordsOf ex m = kws"
  shows "calculateConfidence (fold trackKeyword kws freq) (take 3 kws) n
         = confidence (candidateFor ex n earlier m)"
proof -
  have tracked: "freqOf (fold trackKeyword kws freq) k = frequencyIn ex (earlier @ [m]) k" for k
    using f kws by (simp add: freqOf_fold_trackKeyword frequencyIn_snoc)
  have pos: "frequencyOr1 (fold trackKeyword kws freq) kw
             = frequencyIn ex (earlier @ [m]) (toLowerCase kw)"
    if "kw \<in> set (take 3 kws)" for kw
  proof -
    from that have "kw \<in> set kws" by (rule in_set_takeD)
    then have "toLowerCase kw \<in> set (map toLowerCase kws)" by simp
    then have "0 < count_list (map toLowerCase kws) (toLowerCase kw)" by (rule count_list_pos)
    then have "0 < frequencyIn ex (earlier @ [m]) (toLowerCase kw)"
      using kws by (simp add: frequencyIn_snoc)
    then show ?thesis by (simp add: frequencyOr1_freqOf tracked)
  qed
  have "map (\<lambda>kw. real (frequencyOr1 (fold trackKeyword kws freq) kw)) (take 3 kws)
        = map (\<lambda>kw. real (frequencyIn ex (earlier @ [m]) (toLowerCase kw))) (take 3 kws)"
    by (rule map_cong) (simp_all add: pos)
  then have s: "sum_list (map (\<lambda>kw. real (frequencyOr1 (fold trackKeyword kws freq) kw)) (take 3 kws))
        = sum_list (map (\<lambda>kw. real (frequencyIn ex (earlier @ [m]) (toLowerCase kw))) (take 3 kws))"
    by (rule arg_cong)
  show ?thesis
    by (simp add: calculateConfidence_def candidateFor_def Let_def foldl_plus_sum_list kws s)
qed

lemma processMessage_step:
  assumes f: "\<forall>k. freqOf (allKeywords st) k = frequencyIn ex earlier k"
  shows "extractedSubjects (processMessage ex mc n m st) =
           extractedSubjects st @
           candidateIfConfident ex mc n earlier m"
    and "\<forall>k. freqOf (allKeywords (processMessage ex mc n m st)) k = frequencyIn ex (earlier @ [m]) k"
    and "extractorCalls (processMessage ex mc n m st) = extractorCalls st @ [messageText m]"
proof -
  show "extractorCalls (processMessage ex mc n m st) = extractorCalls st @ [messageText m]"
    by (simp add: processMessage_def Let_def split: ExtractOutcome.splits option.splits)
  show "\<forall>k. freqOf (allKeywords (processMessage ex mc n m st)) k = frequencyIn ex (earlier @ [m]) k"
    using f
    by (simp add: processMessage_def Let_def keywordsOf_def frequencyIn_snoc freqOf_fold_trackKeyword
        split: ExtractOutcome.splits option.splits)
  show "extractedSubjects (processMessage ex mc n m st) =
           extractedSubjects st @
           candidateIfConfident ex mc n earlier m"
  proof (cases "ex (messageText m) 10")
    case Throws
    then show ?thesis
      by (simp add: processMessage_def Let_def keywordsOf_def candidateIfConfident_def)
  next
    case (Returns r)
    show ?thesis
    proof (cases r)
      case None
      with Returns show ?thesis
        by (simp add: processMessage_def Let_def keywordsOf_def candidateIfConfident_def)
    next
      case (Some kws)
      with Returns have k: "keywordsOf ex m = kws" by (simp add: keywordsOf_def)
      have c: "calculateConfidence (fold trackKeyword kws (allKeywords st)) (take 3 kws) n
               = confidence (candidateFor ex n earlier m)"
        using f k by (rule calculateConfidence_tracked)
      have cand: "candidateFor ex n earlier m =
          \<lparr>subj_name = join '' '' (take 3 kws), subj_keywords = take 3 kws,
           confidence = confidence (candidateFor ex n earlier m),
           description = Some (getExcerpt (messageText m) 150),
           messageExcerpt = Some (getExcerpt (messageText m) 200)\<rparr>"
        by (simp add: candidateFor_def Let_def k)
      show ?thesis
      proof (cases "kws = []")
        case True
        with Returns Some k show ?thesis
          by (simp add: processMessage_def Let_def candidateIfConfident_def)
      next
        case False
        show ?thesis
        proof (cases "confidence (candidateFor ex n earlier m) \<ge> mc")
          case True
          with False k have "extractedSubjects (processMessage ex mc n m st)
              = extractedSubjects st @
                [\<lparr>subj_name = join '' '' (take 3 kws), subj_keywords = take 3 kws,
                  confidence = confidence (candidateFor ex n earlier m),
                  description = Some (getExcerpt (messageText m) 150),
                  messageExcerpt = Some (getExcerpt (messageText m) 200)\<rparr>]"
            using Returns Some c by (simp add: processMessage_def Let_def)
          with cand True False k show ?thesis by (simp add: candidateIfConfident_def)
        next
          case nc: False
          with False k show ?thesis
            using Returns Some c by (simp add: processMessage_def Let_def candidateIfConfident_def)
        qed
      qed
    qed
  qed
qed

lemma candidatesOf_snoc:
  "candidatesOf ex mc n (ms @ [m]) = candidatesOf ex mc n ms @ candidateIfConfident ex mc n ms m"
proof -
  have e: "map (\<lambda>i. candidateIfConfident ex mc n (take i (ms @ [m])) ((ms @ [m]) ! i)) [0..<length ms]
      = map (\<lambda>i. candidateIfConfident ex mc n (take i ms) (ms ! i)) [0..<length ms]"
    by (rule map_cong) (simp_all add: nth_append)
  have l: "take (length ms) (ms @ [m]) = ms" by simp
  show ?thesis
    by (simp add: candidatesOf_def e l del: take_append)
qed

lemma fold_processMessage:
  "extractedSubjects (fold (processMessage ex mc n) ms initialExtraction) = candidatesOf ex mc n ms \<and>
   (\<forall>k. freqOf (allKeywords (fold (processMessage ex mc n) ms initialExtraction)) k
        = frequencyIn ex ms k) \<and>
   extractorCalls (fold (processMessage ex mc n) ms initialExtraction) = map messageText ms"
proof (induction ms rule: rev_induct)
  case Nil
  show ?case
    by (simp add: initialExtraction_def candidatesOf_def frequencyIn_def freqOf_def Map_get_def)
next
  case (snoc m ms)
  let ?st = "fold (processMessage ex mc n) ms initialExtraction"
  from snoc have f: "\<forall>k. freqOf (allKeywords ?st) k = frequencyIn ex ms k" by blast
  show ?case
    using processMessage_step [OF f, of mc n m] snoc
    by (simp add: candidatesOf_snoc)
qed


lemma candidatesOf_confident:
  "list_all (\<lambda>c. mc \<le> confidence c \<and> confidence c \<le> 1) (candidatesOf ex mc n ms)"
  by (auto simp: candidatesOf_def candidateIfConfident_def list_all_iff candidateFor_def Let_def)

text \<open>
  C2, as the code has it. The subjects the loop extracts are, record by record in batch
  order, the candidates of the records that have keywords: the label and keywords of a
  candidate are the first three keywords extracted from that record (all of them when there
  are fewer), the label joined by single spaces, and its confidence is the average frequency
  of those keywords, lowercased and counted through that record, over the number of records
  in the batch, at most 1. Candidates below the minimum confidence are left out; the minimum
  is 0.5 when the configuration gives none.
\<close>

theorem extraction_candidates:
  "extractedSubjects (extractionLoop ex mc ms) = candidatesOf ex mc (length ms) ms \<and>
   list_all (\<lambda>c. mc \<le> confidence c \<and> confidence c \<le> 1) (extractedSubjects (extractionLoop ex mc ms)) \<and>
   (\<forall>k. freqOf (allKeywords (extractionLoop ex mc ms)) k = frequencyIn ex ms k) \<and>
   minimumConfidence None = 1 / 2 \<and>
   minimumConfidence (Some (c\<lparr>minConfidence := None\<rparr>)) = 1 / 2 \<and>
   minimumConfidence (Some (c\<lparr>minConfidence := Some x\<rparr>)) = x"
proof -
  have a: "extractedSubjects (extractionLoop ex mc ms) = candidatesOf ex mc (length ms) ms"
    using fold_processMessage [of ex mc "length ms" ms] by (simp add: extractionLoop_def)
  have b: "\<forall>k. freqOf (allKeywords (extractionLoop ex mc ms)) k = frequencyIn ex ms k"
    using fold_processMessage [of ex mc "length ms" ms] by (simp add: extractionLoop_def)
  show ?thesis
    by (simp add: a b candidatesOf_confident minimumConfidence_def)
qed

theorem extraction_candidates_witness:
  "extractedSubjects (extractionLoop exampleExtractor (1 / 2) exampleMessages)
     = candidatesOf exampleExtractor (1 / 2) (length exampleMessages) exampleMessages \<and>
   map subj_keywords (candidatesOf exampleExtractor (1 / 2) (length exampleMessages) exampleMessages)
     = [[''a''], [''b'', ''c'', ''d'']] \<and>
   map confidence (candidatesOf exampleExtractor (1 / 2) (length exampleMessages) exampleMessages)
     = [1 / 2, 1 / 2] \<and>
   extractedSubjects (extractionLoop exampleExtractor (3 / 4) exampleMessages) = []"
proof -
  have k: "map subj_keywords (candidatesOf exampleExtractor (1 / 2) (length exampleMessages) exampleMessages)
     = [[''a''], [''b'', ''c'', ''d'']]"
    by code_simp
  have c: "map confidence (candidatesOf exampleExtractor (1 / 2) (length exampleMessages) exampleMessages)
     = [1 / 2, 1 / 2]"
    by code_simp
  have n: "candidatesOf exampleExtractor (3 / 4) (length exampleMessages) exampleMessages = []"
    by code_simp
  show ?thesis
    using extraction_candidates [of exampleExtractor "1 / 2" exampleMessages]
      extraction_candidates [of exampleExtractor "3 / 4" exampleMessages] k c n
    by simp
qed

text \<open>
  C2 as stated fails: in a batch of two records with the keywords \<open>a\<close> and \<open>b, c, d, a\<close> the
  second candidate is labelled \<open>b c d\<close>, although \<open>a\<close> is by then the most frequent keyword
  (2 against 1).
\<close>

theorem extraction_label_counterexample:
  "map subj_name (extractedSubjects (extractionLoop exampleExtractor (1 / 2) exampleMessages))
     = [''a'', ''b c d''] \<and>
   allKeywords (extractionLoop exampleExtractor (1 / 2) exampleMessages)
     = [(''a'', 2), (''b'', 1), (''c'', 1), (''d'', 1)]"
proof -
  have a: "map subj_name (extractedSubjects (extractionLoop exampleExtractor (1 / 2) exampleMessages))
     = [''a'', ''b c d'']"
    by code_simp
  have b: "allKeywords (extractionLoop exampleExtractor (1 / 2) exampleMessages)
     = [(''a'', 2), (''b'', 1), (''c'', 1), (''d'', 1)]"
    by code_simp
  from a b show ?thesis by simp
qed

subsection \<open>Records whose extraction throws\<close>

lemma processMessage_calls:
  "processMessage ex mc n m (st\<lparr>extractorCalls := c\<rparr>)
     = (processMessage ex mc n m st)\<lparr>extractorCalls := c @ [messageText m]\<rparr>"
  by (simp add: processMessage_def Let_def split: ExtractOutcome.splits option.splits)

lemma fold_processMessage_calls:
  "fold (processMessage ex mc n) ms (st\<lparr>extractorCalls := c\<rparr>)
     = (fold (processMessage ex mc n) ms st)\<lparr>extractorCalls := c @ map messageText ms\<rparr>"
proof (induction ms arbitrary: st c)
  case Nil
  show ?case by simp
next
  case (Cons m ms)
  have "fold (processMessage ex mc n) (m # ms) (st\<lparr>extractorCalls := c\<rparr>)
        = fold (processMessage ex mc n) ms
            ((processMessage ex mc n m st)\<lparr>extractorCalls := c @ [messageText m]\<rparr>)"
    by (simp add: processMessage_calls)
  also have "\<dots> = (fold (processMessage ex mc n) ms (processMessage ex mc n m st))
                     \<lparr>extractorCalls := (c @ [messageText m]) @ map messageText ms\<rparr>"
    by (rule Cons.IH)
  finally show ?case by simp
qed

lemma extractorCalls_fold:
  "extractorCalls (fold (processMessage ex mc n) ms st) = extractorCalls st @ map messageText ms"
proof (induction ms arbitrary: st)
  case Nil
  show ?case by simp
next
  case (Cons m ms)
  have "extractorCalls (processMessage ex mc n m st) = extractorCalls st @ [messageText m]"
    by (simp add: processMessage_def Let_def split: ExtractOutcome.splits option.splits)
  then show ?case by (simp add: Cons.IH)
qed

lemma processMessage_Throws:
  "ex (messageText m) 10 = Throws \<Longrightarrow>
     processMessage ex mc n m st = st\<lparr>extractorCalls := extractorCalls st @ [messageText m]\<rparr>"
  by (simp add: processMessage_def Let_def)

lemma fold_skips_thrown:
  assumes "ex (messageText m) 10 = Throws"
  shows "fold (processMessage ex mc n) (pre @ m # post) st
         = (fold (processMessage ex mc n) (pre @ post) st)
             \<lparr>extractorCalls := extractorCalls st @ map messageText (pre @ m # post)\<rparr>"
proof -
  let ?s1 = "fold (processMessage ex mc n) pre st"
  have "fold (processMessage ex mc n) (pre @ m # post) st
        = fold (processMessage ex mc n) post
            (?s1\<lparr>extractorCalls := extractorCalls ?s1 @ [messageText m]\<rparr>)"
    using assms by (simp add: processMessage_Throws)
  also have "\<dots> = (fold (processMessage ex mc n) post ?s1)
                     \<lparr>extractorCalls := (extractorCalls ?s1 @ [messageText m]) @ map messageText post\<rparr>"
    by (rule fold_processMessage_calls)
  finally show ?thesis by (simp add: extractorCalls_fold)
qed

section \<open>extractAndStoreSubjects\<close>

lemma extractorCalls_extractionLoop:
  "extractorCalls (extractionLoop ex mc ms) = map messageText ms"
  by (simp add: extractionLoop_def extractorCalls_fold initialExtraction_def)

lemma extractAndStoreSubjects_success:
  assumes "isEnabled configs (req_topicId req)"
    and "topicAnalyzer deps = Some ex" and "memoryPlan deps = Some store"
    and "channelManager deps = Some gm"
    and "gm (req_topicId req) (messageIds req) (limit req) = Inr ms"
    and "storeSubjects (store (req_topicId req))
           (deduplicateSubjects (extractedSubjects
              (extractionLoop ex (minimumConfidence (getConfig configs (req_topicId req))) ms))) w = (None, w')"
  shows "extractAndStoreSubjects configs deps t0 t1 req w =
           (Inr \<lparr>resp_subjects = extractedSubjects
                    (extractionLoop ex (minimumConfidence (getConfig configs (req_topicId req))) ms),
                 totalMessages = length ms, processingTime = t1 - t0\<rparr>,
            map messageText ms, w')"
  using assms by (simp add: extractAndStoreSubjects_def Let_def extractorCalls_extractionLoop)

lemma extractAndStoreSubjects_response:
  assumes "extractAndStoreSubjects configs deps t0 t1 req w = (Inr r, calls, w')"
  shows "processingTime r = t1 - t0 \<and>
         (\<exists>ex gm ms. topicAnalyzer deps = Some ex \<and> channelManager deps = Some gm \<and>
            gm (req_topicId req) (messageIds req) (limit req) = Inr ms \<and>
            totalMessages r = length ms \<and> calls = map messageText ms \<and>
            resp_subjects r = extractedSubjects
              (extractionLoop ex (minimumConfidence (getConfig configs (req_topicId req))) ms))"
  using assms
  by (auto simp: extractAndStoreSubjects_def Let_def extractorCalls_extractionLoop
      split: if_splits option.splits sum.splits prod.splits)

text \<open>
  C8. The call fails with no extractor call made and the world unchanged when memories are
  not enabled for the topic, when the keyword extractor is missing, and when the memory plan
  is missing. A record whose extraction throws leaves the frequency map and the extracted
  subjects as they were, and the loop goes on: the frequencies and the subjects are those
  the other records give on their own (the batch size staying that of the whole batch),
  and the extractor is called on every record of the batch. When the call
  returns, the response holds the extracted subjects, the number of messages of the batch
  and the time between the two clock readings; it returns whenever the preconditions hold,
  the messages are fetched and the subjects are stored.
\<close>

theorem extractAndStoreSubjects_failures_and_response:
  "(\<not> isEnabled configs (req_topicId req) \<longrightarrow>
      extractAndStoreSubjects configs deps t0 t1 req w
        = (Inl (MemoriesNotEnabled (req_topicId req)), [], w)) \<and>
   (isEnabled configs (req_topicId req) \<and> topicAnalyzer deps = None \<longrightarrow>
      extractAndStoreSubjects configs deps t0 t1 req w = (Inl TopicAnalyzerNotAvailable, [], w)) \<and>
   (isEnabled configs (req_topicId req) \<and> topicAnalyzer deps \<noteq> None \<and> memoryPlan deps = None \<longrightarrow>
      extractAndStoreSubjects configs deps t0 t1 req w = (Inl MemoryPlanNotAvailable, [], w)) \<and>
   (ex (messageText m) 10 = Throws \<longrightarrow>
      allKeywords (fold (processMessage ex mc n) (pre @ m # post) st)
        = allKeywords (fold (processMessage ex mc n) (pre @ post) st) \<and>
      extractedSubjects (fold (processMessage ex mc n) (pre @ m # post) st)
        = extractedSubjects (fold (processMessage ex mc n) (pre @ post) st) \<and>
      extractorCalls (fold (processMessage ex mc n) (pre @ m # post) st)
        = extractorCalls st @ map messageText (pre @ m # post)) \<and>
   (isEnabled configs (req_topicId req) \<and> topicAnalyzer deps = Some ex \<and>
    memoryPlan deps = Some store \<and> channelManager deps = Some gm \<and>
    gm (req_topicId req) (messageIds req) (limit req) = Inr ms \<and>
    storeSubjects (store (req_topicId req))
      (deduplicateSubjects (extractedSubjects
         (extractionLoop ex (minimumConfidence (getConfig configs (req_topicId req))) ms))) w = (None, w')
    \<longrightarrow>
      extractAndStoreSubjects configs deps t0 t1 req w =
        (Inr \<lparr>resp_subjects = extractedSubjects
                 (extractionLoop ex (minimumConfidence (getConfig configs (req_topicId req))) ms),
              totalMessages = length ms, processingTime = t1 - t0\<rparr>,
         map messageText ms, w')) \<and>
   (extractAndStoreSubjects configs deps t0 t1 req w = (Inr r, calls, w2) \<longrightarrow>
      processingTime r = t1 - t0 \<and>
      (\<exists>ex gm ms. topicAnalyzer deps = Some ex \<and> channelManager deps = Some gm \<and>
         gm (req_topicId req) (messageIds req) (limit req) = Inr ms \<and>
         totalMessages r = length ms \<and> calls = map messageText ms \<and>
         resp_subjects r = extractedSubjects
           (extractionLoop ex (minimumConfidence (getConfig configs (req_topicId req))) ms)))"
proof -
  have 1: "\<not> isEnabled configs (req_topicId req) \<longrightarrow>
      extractAndStoreSubjects configs deps t0 t1 req w
        = (Inl (MemoriesNotEnabled (req_topicId req)), [], w)"
    by (simp add: extractAndStoreSubjects_def)
  have 2: "isEnabled configs (req_topicId req) \<and> topicAnalyzer deps = None \<longrightarrow>
      extractAndStoreSubjects configs deps t0 t1 req w = (Inl TopicAnalyzerNotAvailable, [], w)"
    by (simp add: extractAndStoreSubjects_def)
  have 3: "isEnabled configs (req_topicId req) \<and> topicAnalyzer deps \<noteq> None \<and> memoryPlan deps = None \<longrightarrow>
      extractAndStoreSubjects configs deps t0 t1 req w = (Inl MemoryPlanNotAvailable, [], w)"
    by (auto simp: extractAndStoreSubjects_def)
  have 4: "ex (messageText m) 10 = Throws \<longrightarrow>
      allKeywords (fold (processMessage ex mc n) (pre @ m # post) st)
        = allKeywords (fold (processMessage ex mc n) (pre @ post) st) \<and>
      extractedSubjects (fold (processMessage ex mc n) (pre @ m # post) st)
        = extractedSubjects (fold (processMessage ex mc n) (pre @ post) st) \<and>
      extractorCalls (fold (processMessage ex mc n) (pre @ m # post) st)
        = extractorCalls st @ map messageText (pre @ m # post)"
  proof
    assume t: "ex (messageText m) 10 = Throws"
    show "allKeywords (fold (processMessage ex mc n) (pre @ m # post) st)
        = allKeywords (fold (processMessage ex mc n) (pre @ post) st) \<and>
      extractedSubjects (fold (processMessage ex mc n) (pre @ m # post) st)
        = extractedSubjects (fold (processMessage ex mc n) (pre @ post) st) \<and>
      extractorCalls (fold (processMessage ex mc n) (pre @ m # post) st)
        = extractorCalls st @ map messageText (pre @ m # post)"
      using fold_skips_thrown [of ex m mc n pre post st] t by simp
  qed
  have 5: "isEnabled configs (req_topicId req) \<and> topicAnalyzer deps = Some ex \<and>
    memoryPlan deps = Some store \<and> channelManager deps = Some gm \<and>
    gm (req_topicId req) (messageIds req) (limit req) = Inr ms \<and>
    storeSubjects (store (req_topicId req))
      (deduplicateSubjects (extractedSubjects
         (extractionLoop ex (minimumConfidence (getConfig configs (req_topicId req))) ms))) w = (None, w')
    \<longrightarrow>
      extractAndStoreSubjects configs deps t0 t1 req w =
        (Inr \<lparr>resp_subjects = extractedSubjects
                 (extractionLoop ex (minimumConfidence (getConfig configs (req_topicId req))) ms),
              totalMessages = length ms, processingTime = t1 - t0\<rparr>,
         map messageText ms, w')"
    using extractAndStoreSubjects_success [of configs req deps ex store gm ms w w' t0 t1] by blast
  have 6: "extractAndStoreSubjects configs deps t0 t1 req w = (Inr r, calls, w2) \<longrightarrow>
      processingTime r = t1 - t0 \<and>
      (\<exists>ex gm ms. topicAnalyzer deps = Some ex \<and> channelManager deps = Some gm \<and>
         gm (req_topicId req) (messageIds req) (limit req) = Inr ms \<and>
         totalMessages r = length ms \<and> calls = map messageText ms \<and>
         resp_subjects r = extractedSubjects
           (extractionLoop ex (minimumConfidence (getConfig configs (req_topicId req))) ms))"
    using extractAndStoreSubjects_response [of configs deps t0 t1 req w r calls w2] by blast
  from 1 2 3 4 5 6 show ?thesis by (intro conjI)
qed


theorem extractAndStoreSubjects_failures_and_response_witness:
  "\<not> isEnabled exampleConfigs (req_topicId otherRequest) \<and>
   extractAndStoreSubjects exampleConfigs exampleDeps 100 250 otherRequest []
     = (Inl (MemoriesNotEnabled ''other''), [], []) \<and>
   isEnabled exampleConfigs (req_topicId exampleRequest) \<and>
   topicAnalyzer (exampleDeps\<lparr>topicAnalyzer := None\<rparr>) = None \<and>
   extractAndStoreSubjects exampleConfigs (exampleDeps\<lparr>topicAnalyzer := None\<rparr>) 100 250 exampleRequest []
     = (Inl TopicAnalyzerNotAvailable, [], []) \<and>
   topicAnalyzer (exampleDeps\<lparr>memoryPlan := None\<rparr>) \<noteq> None \<and>
   memoryPlan (exampleDeps\<lparr>memoryPlan := None\<rparr>) = None \<and>
   extractAndStoreSubjects exampleConfigs (exampleDeps\<lparr>memoryPlan := None\<rparr>) 100 250 exampleRequest []
     = (Inl MemoryPlanNotAvailable, [], []) \<and>
   exampleExtractor (messageText brokenMessage) 10 = Throws \<and>
   extractedSubjects (fold (processMessage exampleExtractor (1 / 2) 2) ([] @ brokenMessage # [firstMessage]) initialExtraction)
     = extractedSubjects (fold (processMessage exampleExtractor (1 / 2) 2) ([] @ [firstMessage]) initialExtraction) \<and>
   extractorCalls (fold (processMessage exampleExtractor (1 / 2) 2) ([] @ brokenMessage # [firstMessage]) initialExtraction)
     = [''broken'', ''first''] \<and>
   topicAnalyzer exampleDeps = Some exampleExtractor \<and>
   memoryPlan exampleDeps = Some exampleStore \<and>
   channelManager exampleDeps = Some exampleChannel \<and>
   exampleChannel (req_topicId exampleRequest) (messageIds exampleRequest) (limit exampleRequest)
     = Inr brokenMessages \<and>
   storeSubjects (exampleStore (req_topicId exampleRequest))
      (deduplicateSubjects (extractedSubjects
         (extractionLoop exampleExtractor
            (minimumConfidence (getConfig exampleConfigs (req_topicId exampleRequest))) brokenMessages))) []
     = (None, [''a'']) \<and>
   extractAndStoreSubjects exampleConfigs exampleDeps 100 250 exampleRequest [] =
     (Inr \<lparr>resp_subjects = extractedSubjects
              (extractionLoop exampleExtractor
                 (minimumConfidence (getConfig exampleConfigs (req_topicId exampleRequest))) brokenMessages),
           totalMessages = 2, processingTime = 150\<rparr>,
      [''broken'', ''first''], [''a''])"
proof -
  note T = extractAndStoreSubjects_failures_and_response
  have d: "\<not> isEnabled exampleConfigs (req_topicId otherRequest)" by code_simp
  have e: "isEnabled exampleConfigs (req_topicId exampleRequest)" by code_simp
  have o: "req_topicId otherRequest = ''other''" by (simp add: otherRequest_def)
  have t: "exampleExtractor (messageText brokenMessage) 10 = Throws" by code_simp
  have mt: "extractorCalls initialExtraction @ map messageText ([] @ brokenMessage # [firstMessage])
            = [''broken'', ''first'']"
    by code_simp
  have a: "topicAnalyzer exampleDeps = Some exampleExtractor"
    and p: "memoryPlan exampleDeps = Some exampleStore"
    and g: "channelManager exampleDeps = Some exampleChannel"
    by (simp_all add: exampleDeps_def)
  have an: "topicAnalyzer (exampleDeps\<lparr>topicAnalyzer := None\<rparr>) = None" by simp
  have pa: "topicAnalyzer (exampleDeps\<lparr>memoryPlan := None\<rparr>) \<noteq> None"
    by (simp add: exampleDeps_def)
  have pn: "memoryPlan (exampleDeps\<lparr>memoryPlan := None\<rparr>) = None" by simp
  have ch: "exampleChannel (req_topicId exampleRequest) (messageIds exampleRequest) (limit exampleRequest)
     = Inr brokenMessages"
    by (simp add: exampleChannel_def)
  have st: "storeSubjects (exampleStore (req_topicId exampleRequest))
      (deduplicateSubjects (extractedSubjects
         (extractionLoop exampleExtractor
            (minimumConfidence (getConfig exampleConfigs (req_topicId exampleRequest))) brokenMessages))) []
     = (None, [''a''])"
    by code_simp
  have l: "length brokenMessages = 2" by code_simp
  have mb: "map messageText brokenMessages = [''broken'', ''first'']" by code_simp
  have c1: "extractAndStoreSubjects exampleConfigs exampleDeps 100 250 otherRequest []
     = (Inl (MemoriesNotEnabled ''other''), [], [])"
    using T [of exampleConfigs otherRequest exampleDeps 100 250 "[]", THEN conjunct1, THEN mp, OF d]
    unfolding o .
  have c2: "extractAndStoreSubjects exampleConfigs (exampleDeps\<lparr>topicAnalyzer := None\<rparr>) 100 250 exampleRequest []
     = (Inl TopicAnalyzerNotAvailable, [], [])"
    by (rule T [of exampleConfigs exampleRequest "exampleDeps\<lparr>topicAnalyzer := None\<rparr>" 100 250 "[]",
          THEN conjunct2, THEN conjunct1, THEN mp, OF conjI [OF e an]])
  have c3: "extractAndStoreSubjects exampleConfigs (exampleDeps\<lparr>memoryPlan := None\<rparr>) 100 250 exampleRequest []
     = (Inl MemoryPlanNotAvailable, [], [])"
    by (rule T [of exampleConfigs exampleRequest "exampleDeps\<lparr>memoryPlan := None\<rparr>" 100 250 "[]",
          THEN conjunct2, THEN conjunct2, THEN conjunct1, THEN mp, OF conjI [OF e conjI [OF pa pn]]])
  note c4 = T [of exampleConfigs exampleRequest exampleDeps 100 250 "[]" exampleExtractor brokenMessage
            "1 / 2" 2 "[]" "[firstMessage]" initialExtraction,
          THEN conjunct2, THEN conjunct2, THEN conjunct2, THEN conjunct1, THEN mp, OF t]
  have c4a: "extractedSubjects (fold (processMessage exampleExtractor (1 / 2) 2) ([] @ brokenMessage # [firstMessage]) initialExtraction)
     = extractedSubjects (fold (processMessage exampleExtractor (1 / 2) 2) ([] @ [firstMessage]) initialExtraction)"
    by (rule c4 [THEN conjunct2, THEN conjunct1])
  have c4b: "extractorCalls (fold (processMessage exampleExtractor (1 / 2) 2) ([] @ brokenMessage # [firstMessage]) initialExtraction)
     = [''broken'', ''first'']"
    using c4 [THEN conjunct2, THEN conjunct2] unfolding mt .
  have c5: "extractAndStoreSubjects exampleConfigs exampleDeps 100 250 exampleRequest [] =
     (Inr \<lparr>resp_subjects = extractedSubjects
              (extractionLoop exampleExtractor
                 (minimumConfidence (getConfig exampleConfigs (req_topicId exampleRequest))) brokenMessages),
           totalMessages = 2, processingTime = 150\<rparr>,
      [''broken'', ''first''], [''a''])"
    using T [of exampleConfigs exampleRequest exampleDeps 100 250 "[]" exampleExtractor _ _ _ _ _ _
            exampleStore exampleChannel brokenMessages "[''a'']",
          THEN conjunct2, THEN conjunct2, THEN conjunct2, THEN conjunct2, THEN conjunct1, THEN mp,
          OF conjI [OF e conjI [OF a conjI [OF p conjI [OF g conjI [OF ch st]]]]]]
    unfolding l mb by simp
  show ?thesis
    by (intro conjI) (rule d c1 e an c2 pa pn c3 t c4a c4b a p g ch st c5)+
qed

section \<open>The relevance score\<close>

lemma relevanceScore_of_match:
  assumes "m \<in> set (findByKeywords s kws)"
  shows "\<exists>c e. getSubject s c = Some e \<and> match_idHash m = idHash e \<and>
           relevanceScore m =
             real (card (set (normalizeKeywords kws) \<inter> set (normalizedKeywords e)))
             / real (card (set (normalizeKeywords kws) \<union> set (normalizedKeywords e)))"
proof -
  from assms obtain c where c: "c \<in> set (collectCandidates s (normalizeKeywords kws))"
      "m \<in> set (scoreCandidate s (Set_new (normalizeKeywords kws)) c)"
    by (auto simp: set_findByKeywords)
  from set_scoreCandidate [OF c(2)] obtain e where e: "getSubject s c = Some e"
      "match_idHash m = idHash e"
      "relevanceScore m = calculateJaccardSimilarity (Set_new (normalizeKeywords kws)) (normalizedKeywords e)"
    by blast
  from c(1) have "set (normalizeKeywords kws) \<noteq> {}"
    by (auto simp: set_collectCandidates)
  then have "relevanceScore m =
             real (card (set (normalizeKeywords kws) \<inter> set (normalizedKeywords e)))
             / real (card (set (normalizeKeywords kws) \<union> set (normalizedKeywords e)))"
    by (simp add: e(3) jaccard_eq set_Set_new)
  with e(1,2) show ?thesis by blast
qed

text \<open>
  C3. For the query's keyword set A and a candidate's keyword set B, the score is the size of
  the intersection over the size of the union, and 0 when both are empty; so disjoint sets
  score 0, equal non-empty sets score 1, and \<open>{a, b}\<close> against \<open>{a, b, c}\<close> scores 2/3. The
  relevance score of every match of findByKeywords is this score of the normalized query
  keywords against the normalized keywords of the matched entry.
\<close>

theorem jaccard_similarity:
  "(set A \<union> set B \<noteq> {} \<longrightarrow>
      calculateJaccardSimilarity A B = real (card (set A \<inter> set B)) / real (card (set A \<union> set B))) \<and>
   (set A = {} \<and> set B = {} \<longrightarrow> calculateJaccardSimilarity A B = 0) \<and>
   (set A \<inter> set B = {} \<longrightarrow> calculateJaccardSimilarity A B = 0) \<and>
   (set A = set B \<and> set A \<noteq> {} \<longrightarrow> calculateJaccardSimilarity A B = 1) \<and>
   calculateJaccardSimilarity [''a'', ''b''] [''a'', ''b'', ''c''] = 2 / 3 \<and>
   (m \<in> set (findByKeywords s kws) \<longrightarrow>
      (\<exists>c e. getSubject s c = Some e \<and> match_idHash m = idHash e \<and>
         relevanceScore m =
           real (card (set (normalizeKeywords kws) \<inter> set (normalizedKeywords e)))
           / real (card (set (normalizeKeywords kws) \<union> set (normalizedKeywords e)))))"
proof (intro conjI impI)
  show "calculateJaccardSimilarity [''a'', ''b''] [''a'', ''b'', ''c''] = 2 / 3"
    by code_simp
next
  assume "set A = set B \<and> set A \<noteq> {}"
  then show "calculateJaccardSimilarity A B = 1"
    by (auto simp: jaccard_eq card_gt_0_iff)
next
  assume "m \<in> set (findByKeywords s kws)"
  then show "\<exists>c e. getSubject s c = Some e \<and> match_idHash m = idHash e \<and>
         relevanceScore m =
           real (card (set (normalizeKeywords kws) \<inter> set (normalizedKeywords e)))
           / real (card (set (normalizeKeywords kws) \<union> set (normalizedKeywords e)))"
    by (rule relevanceScore_of_match)
qed (simp_all add: jaccard_eq)

theorem jaccard_similarity_witness:
  "set [''x''] \<union> set [''y'', ''z''] \<noteq> {} \<and>
   set [''x''] \<inter> set [''y'', ''z''] = {} \<and>
   calculateJaccardSimilarity [''x''] [''y'', ''z''] = 0 \<and>
   set [''y'', ''x''] = set [''x'', ''y''] \<and> set [''y'', ''x''] \<noteq> {} \<and>
   calculateJaccardSimilarity [''y'', ''x''] [''x'', ''y''] = 1 \<and>
   set ([] :: string list) = {} \<and>
   calculateJaccardSimilarity [] [] = 0 \<and>
   hd (findByKeywords rustIndex [''rust'', ''cli'']) \<in> set (findByKeywords rustIndex [''rust'', ''cli'']) \<and>
   map match_idHash (findByKeywords rustIndex [''rust'', ''cli'']) = [''s1'', ''s2''] \<and>
   map relevanceScore (findByKeywords rustIndex [''rust'', ''cli'']) = [1 / 3, 1 / 3] \<and>
   (\<exists>c e. getSubject rustIndex c = Some e \<and>
      match_idHash (hd (findByKeywords rustIndex [''rust'', ''cli''])) = idHash e \<and>
      relevanceScore (hd (findByKeywords rustIndex [''rust'', ''cli''])) =
        real (card (set (normalizeKeywords [''rust'', ''cli'']) \<inter> set (normalizedKeywords e)))
        / real (card (set (normalizeKeywords [''rust'', ''cli'']) \<union> set (normalizedKeywords e))))"
proof -
  note J = jaccard_similarity
  have d: "set [''x''] \<inter> set [''y'', ''z''] = {}" by simp
  have u: "set [''x''] \<union> set [''y'', ''z''] \<noteq> {}" by simp
  have e: "set [''y'', ''x''] = set [''x'', ''y''] \<and> set [''y'', ''x''] \<noteq> {}" by auto
  have z: "set ([] :: string list) = {} \<and> set ([] :: string list) = {}" by simp
  have c1: "calculateJaccardSimilarity [''x''] [''y'', ''z''] = 0"
    by (rule J [of "[''x'']" "[''y'', ''z'']", THEN conjunct2, THEN conjunct2, THEN conjunct1, THEN mp, OF d])
  have c2: "calculateJaccardSimilarity [''y'', ''x''] [''x'', ''y''] = 1"
    by (rule J [of "[''y'', ''x'']" "[''x'', ''y'']", THEN conjunct2, THEN conjunct2, THEN conjunct2,
          THEN conjunct1, THEN mp, OF e])
  have c3: "calculateJaccardSimilarity [] [] = 0"
    by (rule J [of "[]" "[]", THEN conjunct2, THEN conjunct1, THEN mp, OF z])
  have ids: "map match_idHash (findByKeywords rustIndex [''rust'', ''cli'']) = [''s1'', ''s2'']"
    by code_simp
  have sc: "map relevanceScore (findByKeywords rustIndex [''rust'', ''cli'']) = [1 / 3, 1 / 3]"
    by code_simp
  from ids have ne: "findByKeywords rustIndex [''rust'', ''cli''] \<noteq> []" by auto
  then have h: "hd (findByKeywords rustIndex [''rust'', ''cli''])
                 \<in> set (findByKeywords rustIndex [''rust'', ''cli''])"
    by (rule hd_in_set)
  note c4 = J [of "[]" "[]" "hd (findByKeywords rustIndex [''rust'', ''cli''])" rustIndex "[''rust'', ''cli'']",
      THEN conjunct2, THEN conjunct2, THEN conjunct2, THEN conjunct2, THEN conjunct2, THEN mp, OF h]
  show ?thesis
    by (intro conjI) (rule u d c1 e [THEN conjunct1] e [THEN conjunct2] c2 z [THEN conjunct1] c3 h ids sc c4)+
qed

end
